theory Spec2Isabelle
  imports Main "HOL-Library.Word"
begin

section \<open>Machine types\<close>

text \<open>
  \<open>std::size_t\<close> is taken to be 64 bits wide and \<open>std::uint8_t\<close> 8 bits; both wrap
  around.  The \<open>std::chrono\<close> durations and time points are signed tick counts; they
  are modelled as unbounded integers (milliseconds, microseconds, and the ticks of
  \<open>steady_clock\<close>, taken to be nanoseconds).
\<close>

type_synonym size_t = "64 word"
type_synonym uint8_t = "8 word"
type_synonym milliseconds = int
type_synonym microseconds = int
type_synonym time_point = int

text \<open>
  Integer division of C++ truncates towards zero; \<open>duration_cast\<close> to a coarser
  unit does the same.
\<close>

definition cxx_div :: "int \<Rightarrow> int \<Rightarrow> int" where
  "cxx_div n d = (if (n < 0) = (d < 0) then \<bar>n\<bar> div \<bar>d\<bar> else - (\<bar>n\<bar> div \<bar>d\<bar>))"

definition duration_cast_ms :: "int \<Rightarrow> milliseconds" where
  "duration_cast_ms ticks = cxx_div ticks 1000000"

definition duration_cast_us :: "int \<Rightarrow> microseconds" where
  "duration_cast_us ticks = cxx_div ticks 1000"

section \<open>Single-precision arithmetic of \<open>updatePriority\<close>\<close>

text \<open>
  \<open>updatePriority\<close> computes in \<open>float\<close>.  Every value that occurs there is finite,
  non-negative and far from the subnormal and overflow ranges of binary32, so a value is
  a pair \<open>(m, e)\<close> standing for \<open>m * 2 ^ e\<close>, and each operation rounds its exact
  result to 24 significant bits, ties to even.
\<close>

type_synonym binary32 = "nat \<times> int"

fun bit_length :: "nat \<Rightarrow> nat" where
  "bit_length n = (if n = 0 then 0 else Suc (bit_length (n div 2)))"

declare bit_length.simps [simp del]

definition round_binary32 :: "nat \<times> int \<Rightarrow> binary32" where
  "round_binary32 x = (case x of (m, e) \<Rightarrow>
     if bit_length m \<le> 24 then (m, e)
     else let s = bit_length m - 24;
              q = m div 2 ^ s;
              r = m mod 2 ^ s;
              h = 2 ^ (s - 1)
          in (if h < r \<or> (r = h \<and> odd q) then q + 1 else q, e + int s))"

definition float_of_nat :: "nat \<Rightarrow> binary32" where
  "float_of_nat n = round_binary32 (n, 0)"

definition float_mul :: "binary32 \<Rightarrow> binary32 \<Rightarrow> binary32" where
  "float_mul x y = (case x of (m1, e1) \<Rightarrow> case y of (m2, e2) \<Rightarrow>
     round_binary32 (m1 * m2, e1 + e2))"

definition float_add :: "binary32 \<Rightarrow> binary32 \<Rightarrow> binary32" where
  "float_add x y = (case x of (m1, e1) \<Rightarrow> case y of (m2, e2) \<Rightarrow>
     let e = min e1 e2
     in round_binary32 (m1 * 2 ^ nat (e1 - e) + m2 * 2 ^ nat (e2 - e), e))"

text \<open>The literal \<open>0.05f\<close>: the binary32 nearest to 1/20, bit pattern \<open>0x3D4CCCCD\<close>.\<close>

definition float_0_05 :: binary32 where
  "float_0_05 = (13421773, - 28)"

text \<open>
  \<open>static_cast<int>\<close> of a \<open>float\<close> truncates; when the truncated value does not fit
  a 32-bit \<open>int\<close> the behaviour is undefined, which is the result \<open>None\<close>.
\<close>

definition float_to_int :: "binary32 \<Rightarrow> int option" where
  "float_to_int x = (case x of (m, e) \<Rightarrow>
     let v = (if 0 \<le> e then m * 2 ^ nat e else m div 2 ^ nat (- e))
     in if v < 2 ^ 31 then Some (int v) else None)"

section \<open>Tasks (\<open>task.hpp\<close>, \<open>task.cpp\<close>)\<close>

datatype TaskState = READY | RUNNING | BLOCKED | SUSPENDED | TERMINATED

datatype SchedulePolicy = PREEMPTIVE | COOPERATIVE

record TaskStatistics =
  execution_count :: size_t
  deadline_misses :: size_t
  last_execution :: time_point
  total_execution_time :: microseconds
  average_execution_time :: microseconds
  deadline_counter :: milliseconds

text \<open>
  The members of \<open>TaskBase\<close>, without the trailing underscore of the source.  The handler
  is an opaque callable; what one call of it does to the task is its outcome, which
  \<open>execute\<close> takes as an argument.
\<close>

record Task =
  name :: string
  state :: TaskState
  policy :: SchedulePolicy
  base_priority :: uint8_t
  dynamic_priority :: uint8_t
  period :: milliseconds
  deadline :: milliseconds
  statistics :: TaskStatistics
  stack_size :: size_t
  recoverable :: bool

datatype handler_result = Returns | Throws

definition TaskStatistics_init :: TaskStatistics where
  "TaskStatistics_init =
     \<lparr>execution_count = 0, deadline_misses = 0, last_execution = 0,
      total_execution_time = 0, average_execution_time = 0, deadline_counter = 0\<rparr>"

definition TaskBase ::
  "string \<Rightarrow> uint8_t \<Rightarrow> SchedulePolicy \<Rightarrow> milliseconds \<Rightarrow> milliseconds \<Rightarrow> size_t \<Rightarrow> bool \<Rightarrow> Task"
where
  "TaskBase nm priority pol per dl stack rec =
     \<lparr>name = nm, state = READY, policy = pol,
      base_priority = min priority 99,
      dynamic_priority = min priority 99,
      period = per,
      deadline = (if 0 < dl then dl else per),
      statistics = TaskStatistics_init,
      stack_size = stack,
      recoverable = rec\<rparr>"

text \<open>
  \<open>execute\<close> in two halves: the statements before the handler is called, and the
  \<open>try\<close>/\<open>catch\<close> around the call with the assignment that follows it.
\<close>

definition execute_enter :: "time_point \<Rightarrow> Task \<Rightarrow> Task" where
  "execute_enter now t =
     t\<lparr>state := RUNNING,
       statistics := (statistics t)
         \<lparr>last_execution := now,
          execution_count := execution_count (statistics t) + 1,
          deadline_counter := 0\<rparr>\<rparr>"

definition execute_leave :: "handler_result \<Rightarrow> Task \<Rightarrow> Task" where
  "execute_leave h t =
     (case h of
        Throws \<Rightarrow> if \<not> recoverable t then t\<lparr>state := TERMINATED\<rparr> else t\<lparr>state := READY\<rparr>
      | Returns \<Rightarrow> t\<lparr>state := READY\<rparr>)"

definition execute :: "time_point \<Rightarrow> handler_result \<Rightarrow> Task \<Rightarrow> Task" where
  "execute now h t = execute_leave h (execute_enter now t)"

definition suspend :: "Task \<Rightarrow> Task" where
  "suspend t = (if state t \<noteq> TERMINATED then t\<lparr>state := SUSPENDED\<rparr> else t)"

definition resume :: "Task \<Rightarrow> Task" where
  "resume t = (if state t = SUSPENDED then t\<lparr>state := READY\<rparr> else t)"

definition terminate :: "Task \<Rightarrow> Task" where
  "terminate t = t\<lparr>state := TERMINATED\<rparr>"

definition setState :: "TaskState \<Rightarrow> Task \<Rightarrow> Task" where
  "setState st t = t\<lparr>state := st\<rparr>"

text \<open>
  \<open>updatePriority\<close>: \<open>base_priority_ * 0.05f * deadline_misses\<close> multiplies from the
  left, each operand converted to \<open>float\<close>; the sum with \<open>base_priority_\<close> is a
  \<open>float\<close> again, converted to \<open>int\<close> before \<open>std::min\<close> and narrowed to
  \<open>uint8_t\<close> after it.  The result is \<open>None\<close> where the conversion is undefined.
\<close>

definition priority_boost :: "Task \<Rightarrow> binary32" where
  "priority_boost t =
     float_mul (float_mul (float_of_nat (unat (base_priority t))) float_0_05)
               (float_of_nat (unat (deadline_misses (statistics t))))"

definition updatePriority :: "Task \<Rightarrow> Task option" where
  "updatePriority t =
     (if 0 < deadline_misses (statistics t) then
        (case float_to_int (float_add (float_of_nat (unat (base_priority t))) (priority_boost t)) of
           None \<Rightarrow> None
         | Some i \<Rightarrow> Some (t\<lparr>dynamic_priority := word_of_int (min 99 i)\<rparr>))
      else Some (t\<lparr>dynamic_priority := base_priority t\<rparr>))"

definition recordDeadlineMiss :: "Task \<Rightarrow> Task option" where
  "recordDeadlineMiss t =
     updatePriority
       (t\<lparr>statistics := (statistics t)
            \<lparr>deadline_misses := deadline_misses (statistics t) + 1\<rparr>\<rparr>)"

text \<open>
  \<open>total_execution_time.count() / execution_count\<close> divides a signed 64-bit count by a
  \<open>size_t\<close>: the count is converted to unsigned, the quotient back to signed.
\<close>

definition updateStatistics :: "microseconds \<Rightarrow> Task \<Rightarrow> Task" where
  "updateStatistics execution_time t =
     (let total = total_execution_time (statistics t) + execution_time;
          st = (statistics t)\<lparr>total_execution_time := total\<rparr>
      in if 0 < execution_count st
         then t\<lparr>statistics := st
                \<lparr>average_execution_time :=
                   sint ((word_of_int total :: size_t) div execution_count st)\<rparr>\<rparr>
         else t\<lparr>statistics := st\<rparr>)"

definition updateDeadlineCounter :: "milliseconds \<Rightarrow> Task \<Rightarrow> Task option" where
  "updateDeadlineCounter elapsed t =
     (if 0 < deadline t then
        (let t1 = t\<lparr>statistics := (statistics t)
                    \<lparr>deadline_counter := deadline_counter (statistics t) + elapsed\<rparr>\<rparr>
         in if deadline t1 < deadline_counter (statistics t1)
            then map_option
                   (\<lambda>t2. t2\<lparr>statistics := (statistics t2)\<lparr>deadline_counter := 0\<rparr>\<rparr>)
                   (recordDeadlineMiss t1)
            else Some t1)
      else Some t)"

definition isDeadlineApproaching :: "Task \<Rightarrow> bool" where
  "isDeadlineApproaching t =
     (if deadline t = 0 then False
      else cxx_div (deadline t * 4) 5 < deadline_counter (statistics t))"

definition resetStatistics :: "Task \<Rightarrow> Task" where
  "resetStatistics t =
     t\<lparr>statistics := (statistics t)
          \<lparr>execution_count := 0, deadline_misses := 0,
           total_execution_time := 0, average_execution_time := 0,
           deadline_counter := 0\<rparr>,
       dynamic_priority := base_priority t\<rparr>"

section \<open>Scheduler (\<open>scheduler.hpp\<close>, \<open>scheduler.cpp\<close>)\<close>

text \<open>
  A \<open>TaskPtr\<close> is a shared pointer: the task list, the ready queue and the current
  task all refer to the same \<open>Task\<close> objects, so a change made through one of them is
  seen through the others.  The objects live in \<open>heap\<close>, a store from addresses to
  tasks, which is carried in the scheduler's state.  The members keep the names of the
  source without the trailing underscore.  \<open>cpu_utilization_\<close> is left out: it is a
  \<open>float\<close> derived from the two accumulated times and read by no scheduling decision.
  \<open>last_priority_adjustment\<close> is the function-local static of \<open>schedulerLoop\<close>,
  \<open>None\<close> until its declaration has been reached once.

  \<open>schedulerLoop\<close> releases the scheduler's mutex around \<open>setState(RUNNING)\<close> and
  \<open>execute()\<close>, and in the wait of its idle branch; the other threads can act on the
  scheduler and on the tasks there.  \<open>dispatcher_at\<close> is the place where the dispatcher
  thread stands between two of its steps: at the top of the loop; after
  \<open>lock.unlock()\<close>; after \<open>setState(RUNNING)\<close>; inside the handler; after
  \<open>execute()\<close> has returned and before \<open>lock.lock()\<close>; or in the wait.
\<close>

type_synonym TaskPtr = nat

datatype PreemptionMode = NONE | TIME_SLICE | PRIORITY | HYBRID

datatype program_point = LoopTop | Unlocked | StateSet | InHandler | Returned | Waiting

record Scheduler =
  heap :: "TaskPtr \<Rightarrow> Task"
  all_tasks :: "TaskPtr list"
  ready_queue :: "TaskPtr list"
  current_task :: "TaskPtr option"
  is_running :: bool
  time_slice :: milliseconds
  last_schedule_time :: time_point
  preemption_mode :: PreemptionMode
  force_reschedule :: bool
  task_symbols :: "TaskPtr \<rightharpoonup> char"
  idle_start_time :: time_point
  total_run_time :: microseconds
  total_idle_time :: microseconds
  recovery_attempts :: size_t
  last_priority_adjustment :: "time_point option"
  dispatcher_at :: program_point

definition MAX_RECOVERY_ATTEMPTS :: size_t where
  "MAX_RECOVERY_ATTEMPTS = 3"

text \<open>The constructor; \<open>mem\<close> is the content of the store, \<open>now\<close> the clock.\<close>

definition Scheduler_init :: "(TaskPtr \<Rightarrow> Task) \<Rightarrow> milliseconds \<Rightarrow> time_point \<Rightarrow> Scheduler" where
  "Scheduler_init mem ts now =
     \<lparr>heap = mem, all_tasks = [], ready_queue = [], current_task = None,
      is_running = False, time_slice = ts, last_schedule_time = 0,
      preemption_mode = HYBRID, force_reschedule = False, task_symbols = Map.empty,
      idle_start_time = now, total_run_time = 0, total_idle_time = 0,
      recovery_attempts = 0, last_priority_adjustment = None, dispatcher_at = LoopTop\<rparr>"

definition update_task :: "TaskPtr \<Rightarrow> (Task \<Rightarrow> Task) \<Rightarrow> Scheduler \<Rightarrow> Scheduler" where
  "update_task p f s = s\<lparr>heap := (heap s)(p := f (heap s p))\<rparr>"

text \<open>
  \<open>std::priority_queue\<close> with \<open>TaskPriorityCompare\<close> is library code.  It is modelled
  as the list of its entries in descending order of the dynamic priority read when an
  entry is pushed; \<open>top\<close> is the head.  A new entry goes behind those of equal
  priority (the library leaves their order open; no statement below depends on it).
  As in the library, nothing moves an entry whose priority changes while it is enqueued,
  so that the head is an entry of highest priority only as long as the priorities of the
  enqueued tasks are those read at their push.
\<close>

fun pq_insert :: "(TaskPtr \<Rightarrow> Task) \<Rightarrow> TaskPtr \<Rightarrow> TaskPtr list \<Rightarrow> TaskPtr list" where
  "pq_insert h p [] = [p]"
| "pq_insert h p (q # qs) =
     (if dynamic_priority (h q) < dynamic_priority (h p) then p # q # qs
      else q # pq_insert h p qs)"

definition pq_push :: "TaskPtr \<Rightarrow> Scheduler \<Rightarrow> Scheduler" where
  "pq_push p s = s\<lparr>ready_queue := pq_insert (heap s) p (ready_queue s)\<rparr>"

definition symbols :: string where
  "symbols = ''ABCDEFGHIJKLMNOPQRSTUVWXYZ''"

definition addTask :: "TaskPtr \<Rightarrow> Scheduler \<Rightarrow> Scheduler" where
  "addTask p s =
     (let s1 = s\<lparr>all_tasks := all_tasks s @ [p]\<rparr>;
          s2 = (if state (heap s1 p) = READY then pq_push p s1 else s1)
      in if length (all_tasks s2) \<le> length symbols
         then s2\<lparr>task_symbols := (task_symbols s2)(p \<mapsto> symbols ! (length (all_tasks s2) - 1))\<rparr>
         else s2\<lparr>task_symbols := (task_symbols s2)(p \<mapsto> CHR ''#'')\<rparr>)"

definition removeTask :: "string \<Rightarrow> Scheduler \<Rightarrow> Scheduler" where
  "removeTask nm s =
     (case find (\<lambda>p. name (heap s p) = nm) (all_tasks s) of
        None \<Rightarrow> s
      | Some p \<Rightarrow>
          (update_task p terminate s)
            \<lparr>all_tasks := remove1 p (all_tasks s),
             task_symbols := (task_symbols s)(p := None)\<rparr>)"

definition findTask :: "string \<Rightarrow> Scheduler \<Rightarrow> TaskPtr option" where
  "findTask nm s = find (\<lambda>p. name (heap s p) = nm) (all_tasks s)"

definition start :: "time_point \<Rightarrow> Scheduler \<Rightarrow> Scheduler" where
  "start now s =
     (if \<not> is_running s then s\<lparr>is_running := True, last_schedule_time := now\<rparr> else s)"

definition stop :: "Scheduler \<Rightarrow> Scheduler" where
  "stop s = s\<lparr>is_running := False\<rparr>"

definition yield :: "Scheduler \<Rightarrow> Scheduler" where
  "yield s = s\<lparr>force_reschedule := True\<rparr>"

definition setPreemptionMode :: "PreemptionMode \<Rightarrow> Scheduler \<Rightarrow> Scheduler" where
  "setPreemptionMode m s = s\<lparr>preemption_mode := m\<rparr>"

definition setTimeSlice :: "milliseconds \<Rightarrow> Scheduler \<Rightarrow> Scheduler" where
  "setTimeSlice ts s = s\<lparr>time_slice := ts\<rparr>"

text \<open>
  \<open>for (auto &task : all_tasks_)\<close> with a body that changes only the task: the tasks
  are visited in order, and the loop is undefined as soon as one visit is.
\<close>

fun for_each_task ::
  "(Task \<Rightarrow> Task option) \<Rightarrow> TaskPtr list \<Rightarrow> (TaskPtr \<Rightarrow> Task) \<Rightarrow> (TaskPtr \<Rightarrow> Task) option"
where
  "for_each_task f [] h = Some h"
| "for_each_task f (p # ps) h =
     (case f (h p) of None \<Rightarrow> None | Some t \<Rightarrow> for_each_task f ps (h(p := t)))"

definition adjustPriorities :: "Scheduler \<Rightarrow> Scheduler option" where
  "adjustPriorities s =
     (case for_each_task updatePriority (all_tasks s) (heap s) of
        None \<Rightarrow> None
      | Some h \<Rightarrow>
          Some (s\<lparr>heap := h,
                 ready_queue :=
                   foldl (\<lambda>new_queue p. if state (h p) = READY then pq_insert h p new_queue
                                         else new_queue)
                     [] (ready_queue s)\<rparr>))"

text \<open>The first loop of \<open>selectNextTask\<close>, run when the ready queue is empty.\<close>

definition refill :: "Scheduler \<Rightarrow> Scheduler" where
  "refill s =
     foldl (\<lambda>s1 p. if state (heap s1 p) = READY then pq_push p s1 else s1) s (all_tasks s)"

lemma set_pq_insert: "set (pq_insert h p qs) = insert p (set qs)"
  by (induction qs) auto

lemma refill_loop:
  "heap (foldl (\<lambda>s1 p. if state (heap s1 p) = READY then pq_push p s1 else s1) s ps) = heap s
   \<and> set (ready_queue (foldl (\<lambda>s1 p. if state (heap s1 p) = READY then pq_push p s1 else s1) s ps))
       = set (ready_queue s) \<union> {p \<in> set ps. state (heap s p) = READY}"
  by (induction ps arbitrary: s) (auto simp: pq_push_def set_pq_insert)

lemma heap_refill: "heap (refill s) = heap s"
  by (simp add: refill_def refill_loop)

lemma set_ready_queue_refill:
  "set (ready_queue (refill s))
     = set (ready_queue s) \<union> {p \<in> set (all_tasks s). state (heap s p) = READY}"
  by (simp add: refill_def refill_loop)

text \<open>
  \<open>selectNextTask\<close> calls itself after it has popped an entry that is not READY.  It
  returns: the queue it is called with is shorter each time, and a queue that has just
  been refilled holds READY tasks only.
\<close>

function selectNextTask :: "Scheduler \<Rightarrow> TaskPtr option \<times> Scheduler" where
  "selectNextTask s =
     (let s1 = (if ready_queue s = [] then refill s else s)
      in case ready_queue s1 of
           [] \<Rightarrow> (None, s1)
         | next_task # rest \<Rightarrow>
             (let s2 = s1\<lparr>ready_queue := rest\<rparr>
              in if state (heap s2 next_task) \<noteq> READY then selectNextTask s2
                 else (Some next_task, s2)))"
  by pat_completeness auto
termination
proof (relation "measure (\<lambda>s. length (ready_queue s))")
  show "wf (measure (\<lambda>s. length (ready_queue s)))" by simp
next
  fix s s1 next_task rest s2
  assume s1: "s1 = (if ready_queue s = [] then refill s else s)"
    and q: "ready_queue s1 = next_task # rest"
    and s2: "s2 = s1\<lparr>ready_queue := rest\<rparr>"
    and stale: "state (heap s2 next_task) \<noteq> READY"
  have "ready_queue s \<noteq> []"
  proof
    assume e: "ready_queue s = []"
    then have "next_task \<in> set (ready_queue (refill s))" using s1 q by simp
    then have "state (heap s next_task) = READY"
      using e by (simp add: set_ready_queue_refill)
    then show False using stale s1 s2 e by (simp add: heap_refill)
  qed
  then show "(s2, s) \<in> measure (\<lambda>s. length (ready_queue s))"
    using s1 q s2 by simp
qed

declare selectNextTask.simps [simp del]

text \<open>
  The body of the loop of \<open>checkDeadlines\<close> for one task; \<open>now - last_exec\<close> is in
  clock ticks and is cast to milliseconds before the comparison.
\<close>

definition checkDeadlines_task :: "time_point \<Rightarrow> Task \<Rightarrow> Task option" where
  "checkDeadlines_task now t =
     (if 0 < deadline t \<and> 0 < period t then
        (let last_exec = last_execution (statistics t)
         in if 0 < last_exec then
              (let time_since_last_exec = duration_cast_ms (now - last_exec)
               in if period t + deadline t < time_since_last_exec then recordDeadlineMiss t
                  else Some t)
            else Some t)
      else Some t)"

definition checkDeadlines :: "time_point \<Rightarrow> Scheduler \<Rightarrow> Scheduler option" where
  "checkDeadlines now s =
     map_option (\<lambda>h. s\<lparr>heap := h\<rparr>)
       (for_each_task (checkDeadlines_task now) (all_tasks s) (heap s))"

definition attemptTaskRecovery :: "TaskPtr \<Rightarrow> Scheduler \<Rightarrow> bool \<times> Scheduler" where
  "attemptTaskRecovery p s =
     (if \<not> recoverable (heap s p) then (False, s)
      else if MAX_RECOVERY_ATTEMPTS \<le> recovery_attempts s then (False, s)
      else (True,
            pq_push p
              (update_task p (setState READY)
                 (s\<lparr>recovery_attempts := recovery_attempts s + 1\<rparr>))))"

definition enterIdleState :: "time_point \<Rightarrow> Scheduler \<Rightarrow> Scheduler" where
  "enterIdleState now s = s\<lparr>idle_start_time := now\<rparr>"

definition exitIdleState :: "time_point \<Rightarrow> Scheduler \<Rightarrow> Scheduler" where
  "exitIdleState now s =
     s\<lparr>total_idle_time := total_idle_time s + duration_cast_us (now - idle_start_time s)\<rparr>"

text \<open>
  One pass through the body of the \<open>while\<close> loop of \<open>schedulerLoop\<close>.  What the pass
  reads from outside the scheduler is given by a \<open>loop_input\<close>: the readings of
  \<open>steady_clock::now()\<close> in the order in which the pass takes them, and the outcome of
  the handler.  \<open>schedulerLoop_body\<close> is the pass taken as one step, when nothing else
  touches the scheduler while the lock is released; \<open>schedulerLoop_step\<close> below takes
  the same pass in the steps between which the other threads can act.
  The call of \<open>adjustPriorities\<close> at the end of the pass, which locks the scheduler's
  mutex while the loop holds it, is taken to proceed.
\<close>

record loop_input =
  now_checkDeadlines :: time_point
  now_exitIdle :: time_point
  start_time :: time_point
  now_execute :: time_point
  handler_outcome :: handler_result
  end_time :: time_point
  now_enterIdle :: time_point
  now_loop :: time_point
  now_static :: time_point

definition dispatch :: "loop_input \<Rightarrow> TaskPtr \<Rightarrow> Scheduler \<Rightarrow> Scheduler" where
  "dispatch c p s =
     (let s1 = exitIdleState (now_exitIdle c) s;
          s2 = update_task p (setState RUNNING) s1;
          s3 = update_task p (execute (now_execute c) (handler_outcome c)) s2;
          execution_time = duration_cast_us (end_time c - start_time c);
          s4 = update_task p (updateStatistics execution_time) s3;
          s5 = s4\<lparr>total_run_time := total_run_time s4 + execution_time\<rparr>;
          s6 = (if state (heap s5 p) = TERMINATED \<and> recoverable (heap s5 p)
                then snd (attemptTaskRecovery p s5) else s5)
      in s6\<lparr>force_reschedule := False\<rparr>)"

text \<open>What a dispatch does to the task that was selected.\<close>

definition dispatched :: "loop_input \<Rightarrow> Task \<Rightarrow> Task" where
  "dispatched c t =
     updateStatistics (duration_cast_us (end_time c - start_time c))
       (execute (now_execute c) (handler_outcome c) (setState RUNNING t))"

definition idle :: "loop_input \<Rightarrow> Scheduler \<Rightarrow> Scheduler" where
  "idle c s = exitIdleState (now_exitIdle c) (enterIdleState (now_enterIdle c) s)"

definition time_slice_expired :: "time_point \<Rightarrow> Scheduler \<Rightarrow> bool" where
  "time_slice_expired now s =
     (case current_task s of
        None \<Rightarrow> False
      | Some p \<Rightarrow>
          if policy (heap s p) = PREEMPTIVE
             \<and> (preemption_mode s = TIME_SLICE \<or> preemption_mode s = HYBRID)
          then time_slice s * 1000000 \<le> now - last_schedule_time s
          else False)"

definition reschedule :: "time_point \<Rightarrow> Scheduler \<Rightarrow> Scheduler" where
  "reschedule now s =
     (if time_slice_expired now s \<or> force_reschedule s then
        (let s1 = s\<lparr>last_schedule_time := now, force_reschedule := False\<rparr>;
             s2 = (case current_task s1 of
                     None \<Rightarrow> s1
                   | Some p \<Rightarrow> if state (heap s1 p) = READY then pq_push p s1 else s1)
         in s2\<lparr>current_task := None\<rparr>)
      else s)"

definition periodic_adjust :: "loop_input \<Rightarrow> Scheduler \<Rightarrow> Scheduler option" where
  "periodic_adjust c s =
     (let last = (case last_priority_adjustment s of None \<Rightarrow> now_static c | Some l \<Rightarrow> l);
          s1 = s\<lparr>last_priority_adjustment := Some last\<rparr>
      in if 1000000000 < now_loop c - last
         then map_option (\<lambda>s2. s2\<lparr>last_priority_adjustment := Some (now_loop c)\<rparr>)
                (adjustPriorities s1)
         else Some s1)"

definition schedulerLoop_body :: "loop_input \<Rightarrow> Scheduler \<Rightarrow> Scheduler option" where
  "schedulerLoop_body c s =
     (case checkDeadlines (now_checkDeadlines c) s of
        None \<Rightarrow> None
      | Some s1 \<Rightarrow>
          (let sel = selectNextTask s1;
               s2 = (snd sel)\<lparr>current_task := fst sel\<rparr>;
               s3 = (case current_task s2 of
                       Some p \<Rightarrow> dispatch c p s2
                     | None \<Rightarrow> idle c s2)
           in periodic_adjust c (reschedule (now_loop c) s3)))"

text \<open>
  The same pass in steps.  \<open>loop_select\<close> is the part under the lock up to
  \<open>lock.unlock()\<close>, or up to the wait when no task is ready.  The three statements
  that run without the lock, \<open>setState(RUNNING)\<close>, the part of \<open>execute()\<close> before
  the handler and the part from the return of the handler, are a step each, applied to
  whatever state the task is in by then.  \<open>loop_finish\<close> is the part from
  \<open>lock.lock()\<close>, or from the end of the wait, to the end of the body.
\<close>

definition finish_dispatch :: "loop_input \<Rightarrow> TaskPtr \<Rightarrow> Scheduler \<Rightarrow> Scheduler" where
  "finish_dispatch c p s =
     (let execution_time = duration_cast_us (end_time c - start_time c);
          s4 = update_task p (updateStatistics execution_time) s;
          s5 = s4\<lparr>total_run_time := total_run_time s4 + execution_time\<rparr>;
          s6 = (if state (heap s5 p) = TERMINATED \<and> recoverable (heap s5 p)
                then snd (attemptTaskRecovery p s5) else s5)
      in s6\<lparr>force_reschedule := False\<rparr>)"

definition on_current :: "(Task \<Rightarrow> Task) \<Rightarrow> Scheduler \<Rightarrow> Scheduler" where
  "on_current f s = (case current_task s of None \<Rightarrow> s | Some p \<Rightarrow> update_task p f s)"

definition loop_select :: "loop_input \<Rightarrow> Scheduler \<Rightarrow> Scheduler option" where
  "loop_select c s =
     (case checkDeadlines (now_checkDeadlines c) s of
        None \<Rightarrow> None
      | Some s1 \<Rightarrow>
          (let sel = selectNextTask s1;
               s2 = (snd sel)\<lparr>current_task := fst sel\<rparr>
           in case current_task s2 of
                Some p \<Rightarrow> Some ((exitIdleState (now_exitIdle c) s2)\<lparr>dispatcher_at := Unlocked\<rparr>)
              | None \<Rightarrow> Some ((enterIdleState (now_enterIdle c) s2)\<lparr>dispatcher_at := Waiting\<rparr>)))"

definition loop_finish :: "loop_input \<Rightarrow> Scheduler \<Rightarrow> Scheduler option" where
  "loop_finish c s =
     (let s3 = (if dispatcher_at s = Waiting then exitIdleState (now_exitIdle c) s
                else case current_task s of
                       None \<Rightarrow> s
                     | Some p \<Rightarrow> finish_dispatch c p s)
      in map_option (\<lambda>s4. s4\<lparr>dispatcher_at := LoopTop\<rparr>)
           (periodic_adjust c (reschedule (now_loop c) s3)))"

definition schedulerLoop_step :: "loop_input \<Rightarrow> Scheduler \<Rightarrow> Scheduler option" where
  "schedulerLoop_step c s =
     (case dispatcher_at s of
        LoopTop \<Rightarrow> if is_running s then loop_select c s else Some s
      | Unlocked \<Rightarrow> Some ((on_current (setState RUNNING) s)\<lparr>dispatcher_at := StateSet\<rparr>)
      | StateSet \<Rightarrow>
          Some ((on_current (execute_enter (now_execute c)) s)\<lparr>dispatcher_at := InHandler\<rparr>)
      | InHandler \<Rightarrow>
          Some ((on_current (execute_leave (handler_outcome c)) s)\<lparr>dispatcher_at := Returned\<rparr>)
      | Returned \<Rightarrow> loop_finish c s
      | Waiting \<Rightarrow> loop_finish c s)"

text \<open>
  One pass through the body of the loop of \<open>deadlineMonitorLoop\<close>, under the lock;
  \<open>elapsed\<close> is the time since the previous pass, in milliseconds.
\<close>

definition monitor_task :: "milliseconds \<Rightarrow> TaskPtr \<Rightarrow> Scheduler \<Rightarrow> Scheduler option" where
  "monitor_task elapsed p s =
     (case (if Some p \<noteq> current_task s \<or> state (heap s p) \<noteq> RUNNING
            then updateDeadlineCounter elapsed (heap s p) else Some (heap s p)) of
        None \<Rightarrow> None
      | Some t \<Rightarrow>
          (let s1 = s\<lparr>heap := (heap s)(p := t)\<rparr>
           in if isDeadlineApproaching t \<and> state t = READY
                 \<and> (case current_task s1 of
                       None \<Rightarrow> False
                     | Some cur \<Rightarrow> dynamic_priority (heap s1 cur) < dynamic_priority t)
                 \<and> (preemption_mode s1 = PRIORITY \<or> preemption_mode s1 = HYBRID)
              then Some (s1\<lparr>force_reschedule := True\<rparr>)
              else Some s1))"

fun monitor_tasks :: "milliseconds \<Rightarrow> TaskPtr list \<Rightarrow> Scheduler \<Rightarrow> Scheduler option" where
  "monitor_tasks elapsed [] s = Some s"
| "monitor_tasks elapsed (p # ps) s =
     (case monitor_task elapsed p s of
        None \<Rightarrow> None
      | Some s1 \<Rightarrow> monitor_tasks elapsed ps s1)"

definition deadlineMonitorLoop_body :: "milliseconds \<Rightarrow> Scheduler \<Rightarrow> Scheduler option" where
  "deadlineMonitorLoop_body elapsed s = monitor_tasks elapsed (all_tasks s) s"

subsection \<open>Operations and runs\<close>

text \<open>
  What can be done to a task through a handle, and what can happen to a scheduler: the
  calls of its public interface, a pass of either of its two loops (while it is
  running), a step of the dispatcher's pass, and a call on one of the tasks through a
  handle.  A pass of the dispatcher begins at the top of its loop only.  A run applies a
  list of operations in order and is undefined as soon as one of them is; the operations
  that stand between the steps of one pass are those that the other threads, or the
  handler, perform while the dispatcher has released the lock.
\<close>

datatype task_op =
    Execute time_point handler_result
  | Suspend
  | Resume
  | Terminate
  | RecordDeadlineMiss
  | UpdatePriority
  | ResetStatistics
  | UpdateDeadlineCounter milliseconds
  | SetState TaskState
  | UpdateStatistics microseconds

fun apply_task_op :: "task_op \<Rightarrow> Task \<Rightarrow> Task option" where
  "apply_task_op (Execute now h) t = Some (execute now h t)"
| "apply_task_op Suspend t = Some (suspend t)"
| "apply_task_op Resume t = Some (resume t)"
| "apply_task_op Terminate t = Some (terminate t)"
| "apply_task_op RecordDeadlineMiss t = recordDeadlineMiss t"
| "apply_task_op UpdatePriority t = updatePriority t"
| "apply_task_op ResetStatistics t = Some (resetStatistics t)"
| "apply_task_op (UpdateDeadlineCounter elapsed) t = updateDeadlineCounter elapsed t"
| "apply_task_op (SetState st) t = Some (setState st t)"
| "apply_task_op (UpdateStatistics execution_time) t = Some (updateStatistics execution_time t)"

datatype scheduler_op =
    AddTask TaskPtr
  | RemoveTask string
  | Start time_point
  | Stop
  | Yield
  | SetPreemptionMode PreemptionMode
  | SetTimeSlice milliseconds
  | AdjustPriorities
  | AttemptTaskRecovery TaskPtr
  | SchedulerLoop loop_input
  | SchedulerLoopStep loop_input
  | DeadlineMonitorLoop milliseconds
  | OnTask TaskPtr task_op

fun apply_op :: "scheduler_op \<Rightarrow> Scheduler \<Rightarrow> Scheduler option" where
  "apply_op (AddTask p) s = Some (addTask p s)"
| "apply_op (RemoveTask nm) s = Some (removeTask nm s)"
| "apply_op (Start now) s = Some (start now s)"
| "apply_op Stop s = Some (stop s)"
| "apply_op Yield s = Some (yield s)"
| "apply_op (SetPreemptionMode m) s = Some (setPreemptionMode m s)"
| "apply_op (SetTimeSlice ts) s = Some (setTimeSlice ts s)"
| "apply_op AdjustPriorities s = adjustPriorities s"
| "apply_op (AttemptTaskRecovery p) s = Some (snd (attemptTaskRecovery p s))"
| "apply_op (SchedulerLoop c) s =
     (if is_running s \<and> dispatcher_at s = LoopTop then schedulerLoop_body c s else Some s)"
| "apply_op (SchedulerLoopStep c) s = schedulerLoop_step c s"
| "apply_op (DeadlineMonitorLoop elapsed) s =
     (if is_running s then deadlineMonitorLoop_body elapsed s else Some s)"
| "apply_op (OnTask p a) s =
     map_option (\<lambda>t. s\<lparr>heap := (heap s)(p := t)\<rparr>) (apply_task_op a (heap s p))"

fun run :: "scheduler_op list \<Rightarrow> Scheduler \<Rightarrow> Scheduler option" where
  "run [] s = Some s"
| "run (a # as) s = (case apply_op a s of None \<Rightarrow> None | Some s1 \<Rightarrow> run as s1)"

section \<open>Kernel (\<open>kernel.hpp\<close>, \<open>kernel.cpp\<close>)\<close>

text \<open>
  The registry \<open>tasks_\<close> is a \<open>std::map\<close> from names to task pointers.
  \<open>createTask\<close> allocates the new task with \<open>std::make_shared\<close>; the address that the
  allocation returns is the argument \<open>fresh\<close>.
\<close>

record Kernel =
  scheduler :: Scheduler
  tasks :: "string \<rightharpoonup> TaskPtr"

definition createTask ::
  "TaskPtr \<Rightarrow> string \<Rightarrow> uint8_t \<Rightarrow> SchedulePolicy \<Rightarrow> milliseconds \<Rightarrow> milliseconds \<Rightarrow> bool
     \<Rightarrow> Kernel \<Rightarrow> TaskPtr option \<times> Kernel"
where
  "createTask fresh nm priority pol per dl rec k =
     (if tasks k nm \<noteq> None then (None, k)
      else
        (let sch = (scheduler k)
               \<lparr>heap := (heap (scheduler k))(fresh := TaskBase nm priority pol per dl 4096 rec)\<rparr>
         in (Some fresh,
             k\<lparr>tasks := (tasks k)(nm \<mapsto> fresh), scheduler := addTask fresh sch\<rparr>)))"

definition getTask :: "string \<Rightarrow> Kernel \<Rightarrow> TaskPtr option" where
  "getTask nm k = tasks k nm"

definition Kernel_removeTask :: "string \<Rightarrow> Kernel \<Rightarrow> Kernel" where
  "Kernel_removeTask nm k =
     (case tasks k nm of
        None \<Rightarrow> k
      | Some p \<Rightarrow> k\<lparr>scheduler := removeTask nm (scheduler k), tasks := (tasks k)(nm := None)\<rparr>)"

section \<open>Notions used in the statements\<close>


text \<open>
  Relations between an earlier and a later state of a task: the deadline is the same and,
  if it is 0, no deadline miss has been added; the execution count is the same; it is one
  more.
\<close>

definition no_new_miss :: "Task \<Rightarrow> Task \<Rightarrow> bool" where
  "no_new_miss t t' \<longleftrightarrow>
     deadline t' = deadline t
     \<and> (deadline t = 0 \<longrightarrow> unat (deadline_misses (statistics t')) \<le> unat (deadline_misses (statistics t)))"





section \<open>Sample states\<close>

text \<open>Concrete tasks, schedulers and kernels on which the theorems are instantiated.\<close>

definition recoverable_task :: Task where
  "recoverable_task = TaskBase ''F'' 10 PREEMPTIVE 0 0 4096 True"


definition scheduler0 :: Scheduler where
  "scheduler0 = Scheduler_init (\<lambda>_. recoverable_task) 50 0"


definition kernel0 :: Kernel where
  "kernel0 = \<lparr>scheduler = Scheduler_init (\<lambda>_. TaskBase [] 0 PREEMPTIVE 0 0 0 False) 50 0,
              tasks = Map.empty\<rparr>"


















section \<open>Auxiliary facts\<close>

subsection \<open>Evaluating \<open>bit_length\<close> on numerals\<close>

lemma bit_length_0 [simp]: "bit_length 0 = 0"
  by (simp add: bit_length.simps)

lemma bit_length_Suc_0 [simp]: "bit_length (Suc 0) = 1"
  by (simp add: bit_length.simps)

lemma bit_length_1 [simp]: "bit_length 1 = 1"
  by (simp add: bit_length.simps)

lemma bit_length_Bit0 [simp]: "bit_length (numeral (Num.Bit0 k)) = 1 + bit_length (numeral k)"
  by (subst bit_length.simps) simp

lemma bit_length_Bit1 [simp]: "bit_length (numeral (Num.Bit1 k)) = 1 + bit_length (numeral k)"
  by (subst bit_length.simps) simp

lemmas float_defs =
  float_mul_def float_add_def float_to_int_def float_0_05_def float_of_nat_def
  round_binary32_def priority_boost_def

subsection \<open>The effect of the scheduler's operations on the tasks\<close>

lemma for_each_task_rel:
  assumes "for_each_task f ps h = Some h'"
    and step: "\<And>t t'. f t = Some t' \<Longrightarrow> P t t'"
    and refl: "\<And>t. P t t"
    and trans: "\<And>a b c. P a b \<Longrightarrow> P b c \<Longrightarrow> P a c"
  shows "P (h p) (h' p)"
  using assms(1)
proof (induction ps arbitrary: h)
  case Nil
  then show ?case by (simp add: refl)
next
  case (Cons q ps)
  from Cons.prems obtain t where t: "f (h q) = Some t"
    and rest: "for_each_task f ps (h(q := t)) = Some h'"
    by (auto split: option.splits)
  have "P ((h(q := t)) p) (h' p)" by (rule Cons.IH [OF rest])
  moreover have "P (h p) ((h(q := t)) p)"
    using step [OF t] by (simp add: refl)
  ultimately show ?case by (rule trans [rotated])
qed

lemma refill_loop_frame:
  "foldl (\<lambda>s1 p. if state (heap s1 p) = READY then pq_push p s1 else s1) s ps
     = s\<lparr>ready_queue := ready_queue (foldl (\<lambda>s1 p. if state (heap s1 p) = READY then pq_push p s1 else s1) s ps)\<rparr>"
proof (induction ps arbitrary: s)
  case Nil
  show ?case by simp
next
  case (Cons q ps)
  show ?case
    apply (simp only: foldl_Cons)
    apply (subst Cons.IH)
    apply (simp add: pq_push_def)
    done
qed

lemma refill_frame: "refill s = s\<lparr>ready_queue := ready_queue (refill s)\<rparr>"
  unfolding refill_def by (rule refill_loop_frame)

lemma selectNextTask_none:
  "ready_queue s = [] \<Longrightarrow> ready_queue (refill s) = [] \<Longrightarrow> selectNextTask s = (None, refill s)"
  by (subst selectNextTask.simps) simp

lemma selectNextTask_refilled:
  assumes "ready_queue s = []" and "ready_queue (refill s) = n # rest"
  shows "selectNextTask s = (Some n, (refill s)\<lparr>ready_queue := rest\<rparr>)"
proof -
  have "n \<in> set (ready_queue (refill s))" using assms(2) by simp
  then have "state (heap s n) = READY"
    using assms(1) by (simp add: set_ready_queue_refill)
  then show ?thesis
    using assms by (subst selectNextTask.simps) (simp add: heap_refill)
qed

lemma selectNextTask_ready:
  "ready_queue s = n # rest \<Longrightarrow> state (heap s n) = READY
     \<Longrightarrow> selectNextTask s = (Some n, s\<lparr>ready_queue := rest\<rparr>)"
  by (subst selectNextTask.simps) simp

lemma selectNextTask_stale:
  "ready_queue s = n # rest \<Longrightarrow> state (heap s n) \<noteq> READY
     \<Longrightarrow> selectNextTask s = selectNextTask (s\<lparr>ready_queue := rest\<rparr>)"
  by (subst selectNextTask.simps) simp

lemma selectNextTask_frame_aux:
  "ready_queue s = q \<Longrightarrow>
     snd (selectNextTask s) = s\<lparr>ready_queue := ready_queue (snd (selectNextTask s))\<rparr>
     \<and> (\<forall>p. fst (selectNextTask s) = Some p \<longrightarrow> state (heap s p) = READY)"
proof (induction q arbitrary: s)
  case Nil
  show ?case
  proof (cases "ready_queue (refill s)")
    case Nil
    with \<open>ready_queue s = []\<close> show ?thesis
      using refill_frame [of s] by (simp add: selectNextTask_none)
  next
    case (Cons n rest)
    have "n \<in> set (ready_queue (refill s))" using Cons by simp
    then have "state (heap s n) = READY"
      using \<open>ready_queue s = []\<close> by (simp add: set_ready_queue_refill)
    moreover have "(refill s)\<lparr>ready_queue := rest\<rparr> = s\<lparr>ready_queue := rest\<rparr>"
      by (subst refill_frame) simp
    ultimately show ?thesis
      using \<open>ready_queue s = []\<close> Cons by (simp add: selectNextTask_refilled)
  qed
next
  case (Cons n rest)
  show ?case
  proof (cases "state (heap s n) = READY")
    case True
    then show ?thesis using Cons.prems by (simp add: selectNextTask_ready)
  next
    case False
    have "ready_queue (s\<lparr>ready_queue := rest\<rparr>) = rest" by simp
    from Cons.IH [OF this] show ?thesis
      using Cons.prems False by (simp add: selectNextTask_stale)
  qed
qed

lemma selectNextTask_frame:
  "snd (selectNextTask s) = s\<lparr>ready_queue := ready_queue (snd (selectNextTask s))\<rparr>"
  using selectNextTask_frame_aux [of s] by simp

lemma selectNextTask_READY:
  "fst (selectNextTask s) = Some p \<Longrightarrow> state (heap s p) = READY"
  using selectNextTask_frame_aux [of s] by simp

lemma heap_selectNextTask: "heap (snd (selectNextTask s)) = heap s"
  by (subst selectNextTask_frame) simp

lemma state_updateStatistics [simp]: "state (updateStatistics e t) = state t"
  by (simp add: updateStatistics_def Let_def)

lemma recoverable_updateStatistics [simp]: "recoverable (updateStatistics e t) = recoverable t"
  by (simp add: updateStatistics_def Let_def)

lemma execute_terminated_iff:
  "state (execute now h t) = TERMINATED \<longleftrightarrow> h = Throws \<and> \<not> recoverable t"
  by (cases h) (simp_all add: execute_def execute_enter_def execute_leave_def)

lemma recoverable_execute [simp]: "recoverable (execute now h t) = recoverable t"
  by (cases h) (simp_all add: execute_def execute_enter_def execute_leave_def)

lemma dispatch_eq:
  "dispatch c p s =
     (exitIdleState (now_exitIdle c) s)
       \<lparr>heap := (heap s)(p := dispatched c (heap s p)),
        total_run_time := total_run_time s + duration_cast_us (end_time c - start_time c),
        force_reschedule := False\<rparr>"
  by (simp add: dispatch_def dispatched_def Let_def update_task_def exitIdleState_def
      execute_terminated_iff setState_def)

lemma reschedule_frame:
  "heap (reschedule now s) = heap s \<and> all_tasks (reschedule now s) = all_tasks s
   \<and> recovery_attempts (reschedule now s) = recovery_attempts s"
  by (simp add: reschedule_def Let_def pq_push_def split: option.splits)

lemma adjustPriorities_frame:
  "adjustPriorities s = Some s' \<Longrightarrow>
     for_each_task updatePriority (all_tasks s) (heap s) = Some (heap s')
     \<and> all_tasks s' = all_tasks s \<and> recovery_attempts s' = recovery_attempts s"
  by (auto simp: adjustPriorities_def split: option.splits)

lemma periodic_adjust_frame:
  "periodic_adjust c s = Some s' \<Longrightarrow>
     (heap s' = heap s \<or> for_each_task updatePriority (all_tasks s) (heap s) = Some (heap s'))
     \<and> all_tasks s' = all_tasks s \<and> recovery_attempts s' = recovery_attempts s"
  by (auto simp: periodic_adjust_def Let_def dest!: adjustPriorities_frame split: if_splits)

lemma checkDeadlines_frame:
  "checkDeadlines now s = Some s' \<Longrightarrow>
     for_each_task (checkDeadlines_task now) (all_tasks s) (heap s) = Some (heap s')
     \<and> all_tasks s' = all_tasks s \<and> recovery_attempts s' = recovery_attempts s"
  by (auto simp: checkDeadlines_def)

lemma schedulerLoop_body_phases:
  assumes "schedulerLoop_body c s = Some s'"
  shows "\<exists>h1 h2.
           for_each_task (checkDeadlines_task (now_checkDeadlines c)) (all_tasks s) (heap s) = Some h1
           \<and> (h2 = h1 \<or> (\<exists>p. state (h1 p) = READY \<and> h2 = h1(p := dispatched c (h1 p))))
           \<and> (heap s' = h2 \<or> for_each_task updatePriority (all_tasks s) h2 = Some (heap s'))
           \<and> all_tasks s' = all_tasks s
           \<and> recovery_attempts s' = recovery_attempts s"
proof -
  from assms obtain s1 where s1: "checkDeadlines (now_checkDeadlines c) s = Some s1"
    by (auto simp: schedulerLoop_body_def split: option.splits)
  define s2 where "s2 = (snd (selectNextTask s1))\<lparr>current_task := fst (selectNextTask s1)\<rparr>"
  define s3 where "s3 = (case current_task s2 of Some p \<Rightarrow> dispatch c p s2 | None \<Rightarrow> idle c s2)"
  have fin: "periodic_adjust c (reschedule (now_loop c) s3) = Some s'"
    using assms s1 unfolding s2_def s3_def by (simp add: schedulerLoop_body_def Let_def)
  have h1: "for_each_task (checkDeadlines_task (now_checkDeadlines c)) (all_tasks s) (heap s) = Some (heap s1)"
    and f1: "all_tasks s1 = all_tasks s" "recovery_attempts s1 = recovery_attempts s"
    using checkDeadlines_frame [OF s1] by simp_all
  have s2h: "heap s2 = heap s1"
    by (simp add: s2_def heap_selectNextTask)
  have s2f: "all_tasks s2 = all_tasks s1" "recovery_attempts s2 = recovery_attempts s1"
    by (simp_all add: s2_def, (subst selectNextTask_frame, simp)+)
  have s3h: "heap s3 = heap s1 \<or> (\<exists>p. state (heap s1 p) = READY \<and> heap s3 = (heap s1)(p := dispatched c (heap s1 p)))"
  proof (cases "fst (selectNextTask s1)")
    case None
    then show ?thesis
      by (simp add: s3_def s2_def idle_def exitIdleState_def enterIdleState_def heap_selectNextTask)
  next
    case (Some p)
    then have "state (heap s1 p) = READY" by (rule selectNextTask_READY)
    then show ?thesis
      using Some by (auto simp: s3_def s2_def dispatch_eq heap_selectNextTask)
  qed
  have s3f: "all_tasks s3 = all_tasks s2" "recovery_attempts s3 = recovery_attempts s2"
    by (simp_all add: s3_def dispatch_eq idle_def exitIdleState_def enterIdleState_def split: option.splits)
  from periodic_adjust_frame [OF fin] reschedule_frame [of "now_loop c" s3]
  have "(heap s' = heap s3 \<or> for_each_task updatePriority (all_tasks s) (heap s3) = Some (heap s'))
        \<and> all_tasks s' = all_tasks s \<and> recovery_attempts s' = recovery_attempts s"
    using s3f s2f f1 by simp
  with h1 s3h show ?thesis by blast
qed

lemma monitor_task_frame:
  "monitor_task elapsed q s = Some s' \<Longrightarrow>
     (heap s' = heap s
        \<or> (\<exists>t. updateDeadlineCounter elapsed (heap s q) = Some t \<and> heap s' = (heap s)(q := t)))
     \<and> all_tasks s' = all_tasks s \<and> recovery_attempts s' = recovery_attempts s"
  by (auto simp: monitor_task_def Let_def split: if_splits option.splits)

lemma monitor_tasks_rel:
  assumes "monitor_tasks elapsed ps s = Some s'"
    and step: "\<And>t t'. updateDeadlineCounter elapsed t = Some t' \<Longrightarrow> P t t'"
    and refl: "\<And>t. P t t"
    and trans: "\<And>a b c. P a b \<Longrightarrow> P b c \<Longrightarrow> P a c"
  shows "P (heap s p) (heap s' p) \<and> all_tasks s' = all_tasks s
         \<and> recovery_attempts s' = recovery_attempts s"
  using assms(1)
proof (induction ps arbitrary: s)
  case Nil
  then show ?case by (simp add: refl)
next
  case (Cons q ps)
  from Cons.prems obtain s1 where s1: "monitor_task elapsed q s = Some s1"
    and rest: "monitor_tasks elapsed ps s1 = Some s'"
    by (auto split: option.splits)
  have "P (heap s p) (heap s1 p)"
    using monitor_task_frame [OF s1] step by (auto simp: refl)
  moreover note Cons.IH [OF rest] monitor_task_frame [OF s1]
  ultimately show ?case by (auto intro: trans)
qed

lemma dispatched_steps:
  "dispatched c t =
     updateStatistics (duration_cast_us (end_time c - start_time c))
       (execute_leave (handler_outcome c)
          (execute_enter (now_execute c) (setState RUNNING t)))"
  by (simp add: dispatched_def execute_def)

lemma finish_dispatch_frame:
  "(heap (finish_dispatch c q s)
      = (heap s)(q := updateStatistics (duration_cast_us (end_time c - start_time c)) (heap s q))
    \<and> recovery_attempts (finish_dispatch c q s) = recovery_attempts s
    \<or> recoverable (heap s q)
      \<and> heap (finish_dispatch c q s)
          = (heap s)(q := setState READY
                (updateStatistics (duration_cast_us (end_time c - start_time c)) (heap s q)))
      \<and> recovery_attempts s < MAX_RECOVERY_ATTEMPTS
      \<and> recovery_attempts (finish_dispatch c q s) = recovery_attempts s + 1)
   \<and> all_tasks (finish_dispatch c q s) = all_tasks s"
  by (simp add: finish_dispatch_def Let_def attemptTaskRecovery_def update_task_def pq_push_def
      not_le)

lemma loop_select_frame:
  assumes "loop_select c s = Some s'"
  shows "for_each_task (checkDeadlines_task (now_checkDeadlines c)) (all_tasks s) (heap s)
           = Some (heap s')
         \<and> all_tasks s' = all_tasks s \<and> recovery_attempts s' = recovery_attempts s"
proof -
  from assms obtain s1 where s1: "checkDeadlines (now_checkDeadlines c) s = Some s1"
    by (auto simp: loop_select_def split: option.splits)
  have f: "heap (snd (selectNextTask s1)) = heap s1"
    "all_tasks (snd (selectNextTask s1)) = all_tasks s1"
    "recovery_attempts (snd (selectNextTask s1)) = recovery_attempts s1"
    by (simp add: heap_selectNextTask, (subst selectNextTask_frame, simp)+)
  have "heap s' = heap s1 \<and> all_tasks s' = all_tasks s1
        \<and> recovery_attempts s' = recovery_attempts s1"
    using assms s1 f
    by (auto simp: loop_select_def Let_def exitIdleState_def enterIdleState_def
        split: option.splits)
  with checkDeadlines_frame [OF s1] show ?thesis by simp
qed

lemma loop_finish_frame:
  assumes "loop_finish c s = Some s'"
  shows "\<exists>h2. (h2 = heap s
                \<or> (\<exists>q. h2 = (heap s)(q := updateStatistics
                              (duration_cast_us (end_time c - start_time c)) (heap s q))
                       \<or> recoverable (heap s q)
                         \<and> h2 = (heap s)(q := setState READY (updateStatistics
                              (duration_cast_us (end_time c - start_time c)) (heap s q)))))
              \<and> (heap s' = h2 \<or> for_each_task updatePriority (all_tasks s) h2 = Some (heap s'))
              \<and> (recovery_attempts s' = recovery_attempts s
                   \<or> recovery_attempts s < MAX_RECOVERY_ATTEMPTS
                     \<and> recovery_attempts s' = recovery_attempts s + 1)"
proof -
  define s3 where "s3 = (if dispatcher_at s = Waiting then exitIdleState (now_exitIdle c) s
                else case current_task s of
                       None \<Rightarrow> s
                     | Some p \<Rightarrow> finish_dispatch c p s)"
  from assms obtain s4 where s4: "periodic_adjust c (reschedule (now_loop c) s3) = Some s4"
    and s': "s' = s4\<lparr>dispatcher_at := LoopTop\<rparr>"
    unfolding loop_finish_def s3_def by (auto simp: Let_def)
  have a: "(heap s3 = heap s
            \<or> (\<exists>q. heap s3 = (heap s)(q := updateStatistics
                              (duration_cast_us (end_time c - start_time c)) (heap s q))
                   \<or> recoverable (heap s q)
                     \<and> heap s3 = (heap s)(q := setState READY (updateStatistics
                              (duration_cast_us (end_time c - start_time c)) (heap s q)))))
           \<and> all_tasks s3 = all_tasks s
           \<and> (recovery_attempts s3 = recovery_attempts s
                \<or> recovery_attempts s < MAX_RECOVERY_ATTEMPTS
                  \<and> recovery_attempts s3 = recovery_attempts s + 1)"
  proof (cases "dispatcher_at s = Waiting")
    case True
    then show ?thesis by (simp add: s3_def exitIdleState_def)
  next
    case False
    show ?thesis
    proof (cases "current_task s")
      case None
      then show ?thesis using False by (simp add: s3_def)
    next
      case (Some q)
      then have "s3 = finish_dispatch c q s" using False by (simp add: s3_def)
      then show ?thesis using finish_dispatch_frame [of c q s] by auto
    qed
  qed
  from periodic_adjust_frame [OF s4] reschedule_frame [of "now_loop c" s3]
  have b: "(heap s4 = heap s3 \<or> for_each_task updatePriority (all_tasks s3) (heap s3) = Some (heap s4))
           \<and> recovery_attempts s4 = recovery_attempts s3"
    by simp
  show ?thesis
    using a b s' by (intro exI [of _ "heap s3"]) auto
qed

lemma scheduler_activity_rel:
  assumes ap: "apply_op a s = Some s'"
    and act: "\<And>q b. a \<noteq> OnTask q b"
    and refl: "\<And>t. P t t"
    and trans: "\<And>a b c. P a b \<Longrightarrow> P b c \<Longrightarrow> P a c"
    and up: "\<And>t t'. updatePriority t = Some t' \<Longrightarrow> P t t'"
    and cd: "\<And>now t t'. checkDeadlines_task now t = Some t' \<Longrightarrow> P t t'"
    and udc: "\<And>e t t'. updateDeadlineCounter e t = Some t' \<Longrightarrow> P t t'"
    and tm: "\<And>t. P t (terminate t)"
    and recov: "\<And>t. recoverable t \<Longrightarrow> P t (setState READY t)"
    and setrun: "\<And>t. P t (setState RUNNING t)"
    and enter: "\<And>now t. A t (execute_enter now t)"
    and leave: "\<And>h t. P t (execute_leave h t)"
    and stats: "\<And>e t. P t (updateStatistics e t)"
  shows "\<exists>t1 t2. P (heap s p) t1 \<and> (t2 = t1 \<or> A t1 t2) \<and> P t2 (heap s' p)"
proof -
  have quiet: "P (heap s p) (heap s' p) \<Longrightarrow> ?thesis"
    using refl by blast
  have revived: "P t (setState READY (updateStatistics e t))" if "recoverable t" for e t
  proof (rule trans [OF stats])
    show "P (updateStatistics e t) (setState READY (updateStatistics e t))"
      using that by (intro recov) simp
  qed
  have adjusted: "P (h p) (heap s' p)"
    if "heap s' = h \<or> for_each_task updatePriority ps h = Some (heap s')" for h ps
    using that
  proof
    assume "heap s' = h" then show ?thesis by (simp add: refl)
  next
    assume "for_each_task updatePriority ps h = Some (heap s')"
    then show ?thesis by (rule for_each_task_rel) (auto intro: up refl trans)
  qed
  have same: "heap s' = heap s \<Longrightarrow> ?thesis"
    using refl by (intro quiet) simp
  show ?thesis
  proof (cases a)
    case (AddTask q)
    then have "heap s' = heap s"
      using ap by (auto simp: addTask_def Let_def pq_push_def)
    then show ?thesis by (rule same)
  next
    case (RemoveTask nm)
    then have "heap s' p = heap s p \<or> heap s' p = terminate (heap s p)"
      using ap by (auto simp: removeTask_def update_task_def split: option.splits)
    then have "P (heap s p) (heap s' p)" by (auto simp: refl tm)
    then show ?thesis by (rule quiet)
  next
    case (Start now)
    then have "heap s' = heap s" using ap by (auto simp: start_def)
    then show ?thesis by (rule same)
  next
    case Stop
    then have "heap s' = heap s" using ap by (auto simp: stop_def)
    then show ?thesis by (rule same)
  next
    case Yield
    then have "heap s' = heap s" using ap by (auto simp: yield_def)
    then show ?thesis by (rule same)
  next
    case (SetPreemptionMode m)
    then have "heap s' = heap s" using ap by (auto simp: setPreemptionMode_def)
    then show ?thesis by (rule same)
  next
    case (SetTimeSlice ts)
    then have "heap s' = heap s" using ap by (auto simp: setTimeSlice_def)
    then show ?thesis by (rule same)
  next
    case AdjustPriorities
    then have "for_each_task updatePriority (all_tasks s) (heap s) = Some (heap s')"
      using ap by (auto dest: adjustPriorities_frame)
    then have "P (heap s p) (heap s' p)"
      by (rule for_each_task_rel) (auto intro: up refl trans)
    then show ?thesis by (rule quiet)
  next
    case (AttemptTaskRecovery q)
    then have "heap s' p = heap s p \<or> (recoverable (heap s p) \<and> heap s' p = setState READY (heap s p))"
      using ap by (auto simp: attemptTaskRecovery_def update_task_def pq_push_def split: if_splits)
    then have "P (heap s p) (heap s' p)" by (auto simp: refl recov)
    then show ?thesis by (rule quiet)
  next
    case (SchedulerLoop c)
    show ?thesis
    proof (cases "is_running s \<and> dispatcher_at s = LoopTop")
      case False
      then have "heap s' = heap s" using ap SchedulerLoop by auto
      then show ?thesis by (rule same)
    next
      case True
      then have "schedulerLoop_body c s = Some s'" using ap SchedulerLoop by simp
      from schedulerLoop_body_phases [OF this] obtain h1 h2 where
        h1: "for_each_task (checkDeadlines_task (now_checkDeadlines c)) (all_tasks s) (heap s) = Some h1"
        and h2: "h2 = h1 \<or> (\<exists>q. state (h1 q) = READY \<and> h2 = h1(q := dispatched c (h1 q)))"
        and h3: "heap s' = h2 \<or> for_each_task updatePriority (all_tasks s) h2 = Some (heap s')"
        by blast
      have p1: "P (heap s p) (h1 p)"
        using h1 by (rule for_each_task_rel) (auto intro: cd refl trans)
      have p3: "P (h2 p) (heap s' p)"
        using h3 by (rule adjusted)
      from h2 have "h2 p = h1 p \<or> h2 p = dispatched c (h1 p)" by auto
      then show ?thesis
      proof
        assume "h2 p = h1 p"
        with p1 p3 have "P (heap s p) (heap s' p)" by (auto intro: trans)
        then show ?thesis by (rule quiet)
      next
        assume d: "h2 p = dispatched c (h1 p)"
        have "P (heap s p) (setState RUNNING (h1 p))"
          using p1 setrun by (rule trans)
        moreover have "A (setState RUNNING (h1 p))
            (execute_enter (now_execute c) (setState RUNNING (h1 p)))"
          by (rule enter)
        moreover have "P (execute_enter (now_execute c) (setState RUNNING (h1 p))) (h2 p)"
          unfolding d dispatched_steps using leave stats by (rule trans)
        then have "P (execute_enter (now_execute c) (setState RUNNING (h1 p))) (heap s' p)"
          using p3 by (rule trans)
        ultimately show ?thesis by blast
      qed
    qed
  next
    case (SchedulerLoopStep c)
    then have st: "schedulerLoop_step c s = Some s'" using ap by simp
    show ?thesis
    proof (cases "dispatcher_at s")
      case LoopTop
      show ?thesis
      proof (cases "is_running s")
        case False
        then have "heap s' = heap s" using st LoopTop by (simp add: schedulerLoop_step_def)
        then show ?thesis by (rule same)
      next
        case True
        then have "loop_select c s = Some s'" using st LoopTop by (simp add: schedulerLoop_step_def)
        then have "for_each_task (checkDeadlines_task (now_checkDeadlines c)) (all_tasks s) (heap s)
                     = Some (heap s')"
          by (simp add: loop_select_frame)
        then have "P (heap s p) (heap s' p)"
          by (rule for_each_task_rel) (auto intro: cd refl trans)
        then show ?thesis by (rule quiet)
      qed
    next
      case Unlocked
      then have "heap s' p = heap s p \<or> heap s' p = setState RUNNING (heap s p)"
        using st
        by (auto simp: schedulerLoop_step_def on_current_def update_task_def split: option.splits)
      then have "P (heap s p) (heap s' p)" by (auto simp: refl setrun)
      then show ?thesis by (rule quiet)
    next
      case StateSet
      then have "heap s' p = heap s p \<or> heap s' p = execute_enter (now_execute c) (heap s p)"
        using st
        by (auto simp: schedulerLoop_step_def on_current_def update_task_def split: option.splits)
      then show ?thesis
      proof
        assume "heap s' p = heap s p"
        then have "P (heap s p) (heap s' p)" by (simp add: refl)
        then show ?thesis by (rule quiet)
      next
        assume "heap s' p = execute_enter (now_execute c) (heap s p)"
        then have "A (heap s p) (heap s' p)" by (simp add: enter)
        then show ?thesis using refl by blast
      qed
    next
      case InHandler
      then have "heap s' p = heap s p
                 \<or> heap s' p = execute_leave (handler_outcome c) (heap s p)"
        using st
        by (auto simp: schedulerLoop_step_def on_current_def update_task_def split: option.splits)
      then have "P (heap s p) (heap s' p)" by (auto simp: refl leave)
      then show ?thesis by (rule quiet)
    next
      case Returned
      then have "loop_finish c s = Some s'" using st by (simp add: schedulerLoop_step_def)
      from loop_finish_frame [OF this] obtain h2 where
        h2: "h2 = heap s
             \<or> (\<exists>q. h2 = (heap s)(q := updateStatistics
                       (duration_cast_us (end_time c - start_time c)) (heap s q))
                    \<or> recoverable (heap s q)
                      \<and> h2 = (heap s)(q := setState READY (updateStatistics
                       (duration_cast_us (end_time c - start_time c)) (heap s q))))"
        and h3: "heap s' = h2 \<or> for_each_task updatePriority (all_tasks s) h2 = Some (heap s')"
        by blast
      have "P (heap s p) (h2 p)"
        using h2 by (auto simp: refl stats revived)
      moreover have "P (h2 p) (heap s' p)" using h3 by (rule adjusted)
      ultimately have "P (heap s p) (heap s' p)" by (rule trans)
      then show ?thesis by (rule quiet)
    next
      case Waiting
      then have "loop_finish c s = Some s'" using st by (simp add: schedulerLoop_step_def)
      from loop_finish_frame [OF this] obtain h2 where
        h2: "h2 = heap s
             \<or> (\<exists>q. h2 = (heap s)(q := updateStatistics
                       (duration_cast_us (end_time c - start_time c)) (heap s q))
                    \<or> recoverable (heap s q)
                      \<and> h2 = (heap s)(q := setState READY (updateStatistics
                       (duration_cast_us (end_time c - start_time c)) (heap s q))))"
        and h3: "heap s' = h2 \<or> for_each_task updatePriority (all_tasks s) h2 = Some (heap s')"
        by blast
      have "P (heap s p) (h2 p)"
        using h2 by (auto simp: refl stats revived)
      moreover have "P (h2 p) (heap s' p)" using h3 by (rule adjusted)
      ultimately have "P (heap s p) (heap s' p)" by (rule trans)
      then show ?thesis by (rule quiet)
    qed
  next
    case (DeadlineMonitorLoop elapsed)
    show ?thesis
    proof (cases "is_running s")
      case False
      then have "heap s' = heap s" using ap DeadlineMonitorLoop by simp
      then show ?thesis by (rule same)
    next
      case True
      then have "monitor_tasks elapsed (all_tasks s) s = Some s'"
        using ap DeadlineMonitorLoop by (simp add: deadlineMonitorLoop_body_def)
      then have "P (heap s p) (heap s' p)"
        using monitor_tasks_rel [where P = P] udc refl trans by blast
      then show ?thesis by (rule quiet)
    qed
  next
    case (OnTask q b)
    then show ?thesis using act by simp
  qed
qed

lemma apply_op_recovery_attempts:
  assumes "apply_op a s = Some s'"
  shows "recovery_attempts s' = recovery_attempts s
         \<or> (recovery_attempts s < MAX_RECOVERY_ATTEMPTS
             \<and> recovery_attempts s' = recovery_attempts s + 1)"
proof (cases a)
  case (SchedulerLoop c)
  then show ?thesis
    using assms schedulerLoop_body_phases [of c s s'] by (auto split: if_splits)
next
  case (SchedulerLoopStep c)
  then have st: "schedulerLoop_step c s = Some s'" using assms by simp
  show ?thesis
  proof (cases "dispatcher_at s")
    case LoopTop
    then show ?thesis
      using st loop_select_frame [of c s s']
      by (auto simp: schedulerLoop_step_def split: if_splits)
  next
    case Returned
    then show ?thesis
      using st loop_finish_frame [of c s s'] by (auto simp: schedulerLoop_step_def)
  next
    case Waiting
    then show ?thesis
      using st loop_finish_frame [of c s s'] by (auto simp: schedulerLoop_step_def)
  qed (use st in \<open>auto simp: schedulerLoop_step_def on_current_def update_task_def
         split: option.splits\<close>)
next
  case (DeadlineMonitorLoop elapsed)
  then show ?thesis
    using assms monitor_tasks_rel [of elapsed "all_tasks s" s s' "\<lambda>_ _. True"]
    by (auto simp: deadlineMonitorLoop_body_def split: if_splits)
next
  case (AttemptTaskRecovery q)
  then show ?thesis
    using assms by (auto simp: attemptTaskRecovery_def update_task_def pq_push_def split: if_splits)
next
  case AdjustPriorities
  then show ?thesis using assms by (auto dest: adjustPriorities_frame)
qed (use assms in \<open>auto simp: addTask_def Let_def pq_push_def removeTask_def update_task_def
      start_def stop_def yield_def setPreemptionMode_def setTimeSlice_def split: option.splits if_splits\<close>)

subsection \<open>The recovery counter\<close>

lemma length_pq_insert: "length (pq_insert h p qs) = Suc (length qs)"
  by (induction qs) auto

lemma run_recovery_attempts:
  "run ops s = Some s' \<Longrightarrow> recovery_attempts s \<le> MAX_RECOVERY_ATTEMPTS
     \<Longrightarrow> recovery_attempts s' \<le> MAX_RECOVERY_ATTEMPTS"
proof (induction ops arbitrary: s)
  case Nil
  then show ?case by simp
next
  case (Cons a ops)
  from Cons.prems(1) obtain s1 where a: "apply_op a s = Some s1" and rest: "run ops s1 = Some s'"
    by (auto split: option.splits)
  have "recovery_attempts s1 \<le> MAX_RECOVERY_ATTEMPTS"
    using apply_op_recovery_attempts [OF a] Cons.prems(2) by (auto intro: inc_le)
  with rest show ?case by (rule Cons.IH)
qed

subsection \<open>Deadline misses\<close>

lemma updatePriority_Some:
  "updatePriority t = Some t' \<Longrightarrow> \<exists>d. t' = t\<lparr>dynamic_priority := d\<rparr>"
  by (auto simp: updatePriority_def split: if_splits option.splits)

lemma recordDeadlineMiss_Some:
  "recordDeadlineMiss t = Some t' \<Longrightarrow>
     \<exists>d. t' = t\<lparr>statistics := (statistics t)\<lparr>deadline_misses := deadline_misses (statistics t) + 1\<rparr>,
                  dynamic_priority := d\<rparr>"
  by (auto simp: recordDeadlineMiss_def dest!: updatePriority_Some)

lemma no_new_miss_refl: "no_new_miss t t"
  by (simp add: no_new_miss_def)

lemma no_new_miss_trans: "no_new_miss a b \<Longrightarrow> no_new_miss b c \<Longrightarrow> no_new_miss a c"
  by (auto simp: no_new_miss_def)

lemma no_new_miss_updatePriority: "updatePriority t = Some t' \<Longrightarrow> no_new_miss t t'"
  by (auto simp: no_new_miss_def dest!: updatePriority_Some)

lemma no_new_miss_checkDeadlines_task: "checkDeadlines_task now t = Some t' \<Longrightarrow> no_new_miss t t'"
  by (auto simp: no_new_miss_def checkDeadlines_task_def Let_def
      dest!: recordDeadlineMiss_Some split: if_splits)

lemma no_new_miss_updateDeadlineCounter:
  "updateDeadlineCounter e t = Some t' \<Longrightarrow> no_new_miss t t'"
  by (auto simp: no_new_miss_def updateDeadlineCounter_def Let_def
      dest!: recordDeadlineMiss_Some split: if_splits)

lemma no_new_miss_dispatched: "no_new_miss t (dispatched c t)"
  by (cases "handler_outcome c")
     (simp_all add: no_new_miss_def dispatched_def updateStatistics_def execute_def
        execute_enter_def execute_leave_def setState_def Let_def)

lemma no_new_miss_task_op:
  "apply_task_op b t = Some t' \<Longrightarrow> b \<noteq> RecordDeadlineMiss \<Longrightarrow> no_new_miss t t'"
proof (cases b)
  case (Execute now h)
  assume "apply_task_op b t = Some t'"
  with Execute show ?thesis
    by (cases h) (auto simp: no_new_miss_def execute_def execute_enter_def execute_leave_def)
next
  case UpdatePriority
  assume "apply_task_op b t = Some t'"
  with UpdatePriority show ?thesis by (simp add: no_new_miss_updatePriority)
next
  case (UpdateDeadlineCounter e)
  assume "apply_task_op b t = Some t'"
  with UpdateDeadlineCounter show ?thesis by (simp add: no_new_miss_updateDeadlineCounter)
qed (auto simp: no_new_miss_def suspend_def resume_def terminate_def resetStatistics_def
      setState_def updateStatistics_def Let_def)

lemma apply_op_no_new_miss:
  assumes "apply_op a s = Some s'" and "\<And>q. a \<noteq> OnTask q RecordDeadlineMiss"
  shows "no_new_miss (heap s p) (heap s' p)"
proof (cases "\<exists>q b. a = OnTask q b")
  case True
  then obtain q b where a: "a = OnTask q b" by blast
  with assms obtain t' where "apply_task_op b (heap s q) = Some t'" "heap s' = (heap s)(q := t')"
    by auto
  moreover have "b \<noteq> RecordDeadlineMiss" using assms(2) a by blast
  ultimately show ?thesis
    by (auto simp: no_new_miss_refl dest: no_new_miss_task_op)
next
  case False
  then have "\<And>q b. a \<noteq> OnTask q b" by blast
  with assms(1) have "\<exists>t1 t2. no_new_miss (heap s p) t1 \<and> (t2 = t1 \<or> no_new_miss t1 t2)
                               \<and> no_new_miss t2 (heap s' p)"
  proof (rule scheduler_activity_rel)
    show "\<And>t. no_new_miss t (terminate t)"
      by (simp add: no_new_miss_def terminate_def)
    show "\<And>t. recoverable t \<Longrightarrow> no_new_miss t (setState READY t)"
      by (simp add: no_new_miss_def setState_def)
    show "\<And>t. no_new_miss t (setState RUNNING t)"
      by (simp add: no_new_miss_def setState_def)
    show "\<And>now t. no_new_miss t (execute_enter now t)"
      by (simp add: no_new_miss_def execute_enter_def)
    show "\<And>h t. no_new_miss t (execute_leave h t)"
      by (simp add: no_new_miss_def execute_leave_def split: handler_result.split)
    show "\<And>e t. no_new_miss t (updateStatistics e t)"
      by (simp add: no_new_miss_def updateStatistics_def Let_def)
  qed (blast intro: no_new_miss_refl no_new_miss_trans no_new_miss_updatePriority
         no_new_miss_checkDeadlines_task no_new_miss_updateDeadlineCounter
         no_new_miss_dispatched)+
  then show ?thesis by (blast intro: no_new_miss_trans)
qed

lemma run_no_new_miss:
  "run ops s = Some s' \<Longrightarrow> (\<And>q. OnTask q RecordDeadlineMiss \<notin> set ops)
     \<Longrightarrow> no_new_miss (heap s p) (heap s' p)"
proof (induction ops arbitrary: s)
  case Nil
  then show ?case by (simp add: no_new_miss_refl)
next
  case (Cons a ops)
  from Cons.prems(1) obtain s1 where a: "apply_op a s = Some s1" and rest: "run ops s1 = Some s'"
    by (auto split: option.splits)
  have "no_new_miss (heap s p) (heap s1 p)"
    using a Cons.prems(2) by (intro apply_op_no_new_miss) auto
  moreover have "no_new_miss (heap s1 p) (heap s' p)"
    using rest Cons.prems(2) by (intro Cons.IH) auto
  ultimately show ?case by (rule no_new_miss_trans)
qed

lemma deadline_zero_fixed:
  "deadline t = 0 \<Longrightarrow> updateDeadlineCounter e t = Some t"
  "deadline t = 0 \<Longrightarrow> checkDeadlines_task now t = Some t"
  by (simp_all add: updateDeadlineCounter_def checkDeadlines_task_def)

lemma checkDeadlines_zero_deadline:
  assumes "checkDeadlines now s = Some s'" and "deadline (heap s p) = 0"
  shows "heap s' p = heap s p"
proof -
  have "for_each_task (checkDeadlines_task now) (all_tasks s) (heap s) = Some (heap s')"
    using assms(1) by (simp add: checkDeadlines_frame)
  then have "deadline (heap s p) = 0 \<longrightarrow> heap s' p = heap s p"
  proof (rule for_each_task_rel [where P = "\<lambda>t t'. deadline t = 0 \<longrightarrow> t' = t"])
    fix t t' assume "checkDeadlines_task now t = Some t'"
    then show "deadline t = 0 \<longrightarrow> t' = t" by (auto simp: deadline_zero_fixed)
  qed simp_all
  with assms(2) show ?thesis by simp
qed

lemma deadlineMonitorLoop_body_zero_deadline:
  assumes "deadlineMonitorLoop_body e s = Some s'" and "deadline (heap s p) = 0"
  shows "heap s' p = heap s p"
proof -
  have m: "monitor_tasks e (all_tasks s) s = Some s'"
    using assms(1) by (simp add: deadlineMonitorLoop_body_def)
  have "(deadline (heap s p) = 0 \<longrightarrow> heap s' p = heap s p)
        \<and> all_tasks s' = all_tasks s \<and> recovery_attempts s' = recovery_attempts s"
  proof (rule monitor_tasks_rel [OF m, where P = "\<lambda>t t'. deadline t = 0 \<longrightarrow> t' = t"])
    fix t t' assume "updateDeadlineCounter e t = Some t'"
    then show "deadline t = 0 \<longrightarrow> t' = t" by (auto simp: deadline_zero_fixed)
  qed simp_all
  with assms(2) show ?thesis by simp
qed

lemma heap_addTask: "heap (addTask p s) = heap s"
  by (simp add: addTask_def Let_def pq_push_def)

lemma all_tasks_addTask: "all_tasks (addTask p s) = all_tasks s @ [p]"
  by (simp add: addTask_def Let_def pq_push_def)

lemma start_frame:
  "heap (start now s) = heap s" "all_tasks (start now s) = all_tasks s"
  "current_task (start now s) = current_task s"
  by (simp_all add: start_def)

subsection \<open>Execution counts\<close>





lemma execution_count_updateStatistics [simp]:
  "execution_count (statistics (updateStatistics e t)) = execution_count (statistics t)"
  by (simp add: updateStatistics_def Let_def)

lemma execution_count_execute [simp]:
  "execution_count (statistics (execute now h t)) = execution_count (statistics t) + 1"
  by (cases h) (simp_all add: execute_def execute_enter_def execute_leave_def)





subsection \<open>Selection\<close>




lemma all_tasks_refill: "all_tasks (refill s) = all_tasks s"
  by (subst refill_frame) simp

























subsection \<open>The pass of the dispatcher in steps\<close>

text \<open>
  The steps of a pass commute with the record of where the dispatcher stands, and a pass
  taken in steps with nothing in between is the pass taken at once: five steps when a
  task is selected, two when none is.
\<close>

lemma checkDeadlines_only_heap:
  "checkDeadlines now s = Some s' \<Longrightarrow> s' = s\<lparr>heap := heap s'\<rparr>"
  by (auto simp: checkDeadlines_def)

lemma at_finish_dispatch:
  "finish_dispatch c p (s\<lparr>dispatcher_at := x\<rparr>) = (finish_dispatch c p s)\<lparr>dispatcher_at := x\<rparr>"
  by (simp add: finish_dispatch_def Let_def update_task_def attemptTaskRecovery_def pq_push_def)

lemma at_time_slice_expired:
  "time_slice_expired now (s\<lparr>dispatcher_at := x\<rparr>) = time_slice_expired now s"
  by (simp add: time_slice_expired_def split: option.splits)

lemma at_reschedule:
  "reschedule now (s\<lparr>dispatcher_at := x\<rparr>) = (reschedule now s)\<lparr>dispatcher_at := x\<rparr>"
proof (cases "time_slice_expired now s \<or> force_reschedule s")
  case True
  then show ?thesis
    by (simp add: reschedule_def at_time_slice_expired Let_def pq_push_def split: option.splits)
next
  case False
  then show ?thesis by (simp add: reschedule_def at_time_slice_expired)
qed

lemma at_adjustPriorities:
  "adjustPriorities (s\<lparr>dispatcher_at := x\<rparr>)
     = map_option (\<lambda>s1. s1\<lparr>dispatcher_at := x\<rparr>) (adjustPriorities s)"
  by (simp add: adjustPriorities_def split: option.splits)

lemma at_periodic_adjust:
  "periodic_adjust c (s\<lparr>dispatcher_at := x\<rparr>)
     = map_option (\<lambda>s1. s1\<lparr>dispatcher_at := x\<rparr>) (periodic_adjust c s)"
proof -
  define v where "v = (case last_priority_adjustment s of None \<Rightarrow> now_static c | Some l \<Rightarrow> l)"
  have "adjustPriorities (s\<lparr>dispatcher_at := x, last_priority_adjustment := Some v\<rparr>)
          = map_option (\<lambda>s1. s1\<lparr>dispatcher_at := x\<rparr>)
              (adjustPriorities (s\<lparr>last_priority_adjustment := Some v\<rparr>))"
  proof -
    have "s\<lparr>dispatcher_at := x, last_priority_adjustment := Some v\<rparr>
            = s\<lparr>last_priority_adjustment := Some v, dispatcher_at := x\<rparr>"
      by simp
    then show ?thesis
      by (simp only: at_adjustPriorities)
  qed
  moreover have "(\<lambda>s1::Scheduler. s1\<lparr>dispatcher_at := x, last_priority_adjustment := Some w\<rparr>)
                   = (\<lambda>s1. s1\<lparr>last_priority_adjustment := Some w, dispatcher_at := x\<rparr>)" for w
    by (rule ext) simp
  ultimately show ?thesis
    by (simp add: periodic_adjust_def Let_def v_def [symmetric] option.map_comp comp_def)
qed

lemma at_loop_end:
  "map_option (\<lambda>s1. s1\<lparr>dispatcher_at := LoopTop\<rparr>)
     (periodic_adjust c (reschedule now (s\<lparr>dispatcher_at := x\<rparr>)))
   = map_option (\<lambda>s1. s1\<lparr>dispatcher_at := LoopTop\<rparr>) (periodic_adjust c (reschedule now s))"
  by (simp add: at_reschedule at_periodic_adjust option.map_comp comp_def)

lemma dispatcher_at_loop_end:
  "periodic_adjust c (reschedule now s) = Some s' \<Longrightarrow> dispatcher_at s' = dispatcher_at s"
  by (auto simp: periodic_adjust_def adjustPriorities_def reschedule_def Let_def pq_push_def
      split: if_splits option.splits)

lemma loop_end_at_top:
  assumes "dispatcher_at s = LoopTop"
  shows "map_option (\<lambda>s1. s1\<lparr>dispatcher_at := LoopTop\<rparr>) (periodic_adjust c (reschedule now s))
           = periodic_adjust c (reschedule now s)"
proof (cases "periodic_adjust c (reschedule now s)")
  case None
  then show ?thesis by simp
next
  case (Some s')
  then have "dispatcher_at s' = LoopTop"
    using dispatcher_at_loop_end [OF Some] assms by simp
  then have "s'\<lparr>dispatcher_at := LoopTop\<rparr> = s'" by simp
  with Some show ?thesis by simp
qed

lemma dispatch_in_parts:
  "dispatch c p s =
     finish_dispatch c p
       (update_task p (execute_leave (handler_outcome c))
          (update_task p (execute_enter (now_execute c))
             (update_task p (setState RUNNING) (exitIdleState (now_exitIdle c) s))))"
  by (simp add: dispatch_def finish_dispatch_def Let_def update_task_def execute_def)

lemma dispatcher_at_dispatch: "dispatcher_at (dispatch c p s) = dispatcher_at s"
  by (simp add: dispatch_eq exitIdleState_def)

lemma schedulerLoop_in_steps:
  assumes running: "is_running s" and top: "dispatcher_at s = LoopTop"
    and cd: "checkDeadlines (now_checkDeadlines c) s = Some s1"
  shows "fst (selectNextTask s1) = Some p \<Longrightarrow>
           run [SchedulerLoopStep c, SchedulerLoopStep c, SchedulerLoopStep c,
                SchedulerLoopStep c, SchedulerLoopStep c] s
             = apply_op (SchedulerLoop c) s"
    and "fst (selectNextTask s1) = None \<Longrightarrow>
           run [SchedulerLoopStep c, SchedulerLoopStep c] s = apply_op (SchedulerLoop c) s"
proof -
  have at1: "dispatcher_at s1 = LoopTop"
    using checkDeadlines_only_heap [OF cd] top by (metis Scheduler.select_convs(16) Scheduler.surjective Scheduler.update_convs(1))
  have at_sel: "dispatcher_at (snd (selectNextTask s1)) = LoopTop"
    using at1 by (subst selectNextTask_frame) simp
  {
    assume sel: "fst (selectNextTask s1) = Some p"
    define s2 where "s2 = (snd (selectNextTask s1))\<lparr>current_task := Some p\<rparr>"
    define w where "w = update_task p (execute_leave (handler_outcome c))
          (update_task p (execute_enter (now_execute c))
             (update_task p (setState RUNNING) (exitIdleState (now_exitIdle c) s2)))"
    have cur: "current_task s2 = Some p" and at2: "dispatcher_at s2 = LoopTop"
      by (simp_all add: s2_def at_sel)
    have body: "schedulerLoop_body c s = periodic_adjust c (reschedule (now_loop c) (dispatch c p s2))"
      by (simp add: schedulerLoop_body_def cd Let_def sel s2_def)
    have first: "schedulerLoop_step c s
                   = Some ((exitIdleState (now_exitIdle c) s2)\<lparr>dispatcher_at := Unlocked\<rparr>)"
      by (simp add: schedulerLoop_step_def top running loop_select_def cd Let_def sel s2_def)
    define a1 where "a1 = (exitIdleState (now_exitIdle c) s2)\<lparr>dispatcher_at := Unlocked\<rparr>"
    define a2 where "a2 = (update_task p (setState RUNNING) (exitIdleState (now_exitIdle c) s2))
                             \<lparr>dispatcher_at := StateSet\<rparr>"
    define a3 where "a3 = (update_task p (execute_enter (now_execute c))
                             (update_task p (setState RUNNING) (exitIdleState (now_exitIdle c) s2)))
                             \<lparr>dispatcher_at := InHandler\<rparr>"
    have second: "schedulerLoop_step c a1 = Some a2"
      by (simp add: a1_def a2_def schedulerLoop_step_def on_current_def update_task_def
          exitIdleState_def cur)
    have third: "schedulerLoop_step c a2 = Some a3"
      by (simp add: a2_def a3_def schedulerLoop_step_def on_current_def update_task_def
          exitIdleState_def cur)
    have fourth: "schedulerLoop_step c a3 = Some (w\<lparr>dispatcher_at := Returned\<rparr>)"
      by (simp add: a3_def w_def schedulerLoop_step_def on_current_def update_task_def
          exitIdleState_def cur)
    have fifth: "schedulerLoop_step c (w\<lparr>dispatcher_at := Returned\<rparr>)
                   = loop_finish c (w\<lparr>dispatcher_at := Returned\<rparr>)"
      by (simp add: schedulerLoop_step_def)
    have steps: "run [SchedulerLoopStep c, SchedulerLoopStep c, SchedulerLoopStep c,
                SchedulerLoopStep c, SchedulerLoopStep c] s
             = loop_finish c (w\<lparr>dispatcher_at := Returned\<rparr>)"
      using first [folded a1_def] second third fourth fifth by (simp split: option.splits)
    have wf: "current_task w = Some p" "dispatcher_at w = LoopTop"
      by (simp_all add: w_def update_task_def exitIdleState_def cur at2)
    have "loop_finish c (w\<lparr>dispatcher_at := Returned\<rparr>)
            = map_option (\<lambda>s4. s4\<lparr>dispatcher_at := LoopTop\<rparr>)
                (periodic_adjust c (reschedule (now_loop c) (finish_dispatch c p w)))"
      by (simp add: loop_finish_def wf at_finish_dispatch at_loop_end)
    also have "\<dots> = periodic_adjust c (reschedule (now_loop c) (dispatch c p s2))"
      unfolding dispatch_in_parts w_def [symmetric]
      by (rule loop_end_at_top)
         (simp add: dispatch_in_parts [symmetric, of c p s2, folded w_def]
            dispatcher_at_dispatch at2)
    finally show "run [SchedulerLoopStep c, SchedulerLoopStep c, SchedulerLoopStep c,
                SchedulerLoopStep c, SchedulerLoopStep c] s
             = apply_op (SchedulerLoop c) s"
      using steps body running top by simp
  }
  {
    assume sel: "fst (selectNextTask s1) = None"
    define s2 where "s2 = (snd (selectNextTask s1))\<lparr>current_task := None\<rparr>"
    have cur: "current_task s2 = None" and at2: "dispatcher_at s2 = LoopTop"
      by (simp_all add: s2_def at_sel)
    have body: "schedulerLoop_body c s = periodic_adjust c (reschedule (now_loop c) (idle c s2))"
      by (simp add: schedulerLoop_body_def cd Let_def sel s2_def)
    have first: "schedulerLoop_step c s
                   = Some ((enterIdleState (now_enterIdle c) s2)\<lparr>dispatcher_at := Waiting\<rparr>)"
      by (simp add: schedulerLoop_step_def top running loop_select_def cd Let_def sel s2_def)
    have woke: "exitIdleState (now_exitIdle c)
                      ((enterIdleState (now_enterIdle c) s2)\<lparr>dispatcher_at := Waiting\<rparr>)
                 = (idle c s2)\<lparr>dispatcher_at := Waiting\<rparr>"
      by (simp add: idle_def exitIdleState_def enterIdleState_def)
    have second: "schedulerLoop_step c ((enterIdleState (now_enterIdle c) s2)\<lparr>dispatcher_at := Waiting\<rparr>)
            = loop_finish c ((enterIdleState (now_enterIdle c) s2)\<lparr>dispatcher_at := Waiting\<rparr>)"
      by (simp add: schedulerLoop_step_def)
    have "run [SchedulerLoopStep c, SchedulerLoopStep c] s
            = loop_finish c ((enterIdleState (now_enterIdle c) s2)\<lparr>dispatcher_at := Waiting\<rparr>)"
      using first second by (simp split: option.splits)
    also have "\<dots> = map_option (\<lambda>s4. s4\<lparr>dispatcher_at := LoopTop\<rparr>)
                (periodic_adjust c (reschedule (now_loop c)
                   ((idle c s2)\<lparr>dispatcher_at := Waiting\<rparr>)))"
      unfolding woke [symmetric] by (simp add: loop_finish_def)
    also have "\<dots> = periodic_adjust c (reschedule (now_loop c) (idle c s2))"
      unfolding at_loop_end
      by (rule loop_end_at_top) (simp add: idle_def exitIdleState_def enterIdleState_def at2)
    finally show "run [SchedulerLoopStep c, SchedulerLoopStep c] s = apply_op (SchedulerLoop c) s"
      using body running top by simp
  }
qed


subsection \<open>Terminated tasks\<close>



















subsection \<open>A call of \<open>terminate\<close> while the handler runs\<close>












section \<open>The claims\<close>

text \<open>
  C1.  \<open>execute\<close> first sets the state to RUNNING, stores the current time in
  \<open>last_execution\<close>, adds exactly one to \<open>execution_count\<close> and clears
  \<open>deadline_counter\<close>, and only then calls the handler.  After a normal return the
  state is READY; after a throw it is READY for a recoverable task and TERMINATED for
  any other.
\<close>

theorem execute_effect:
  "execute now h t = execute_leave h (execute_enter now t)
   \<and> state (execute_enter now t) = RUNNING
   \<and> last_execution (statistics (execute_enter now t)) = now
   \<and> execution_count (statistics (execute_enter now t)) = execution_count (statistics t) + 1
   \<and> deadline_counter (statistics (execute_enter now t)) = 0
   \<and> statistics (execute now h t) = statistics (execute_enter now t)
   \<and> state (execute now Returns t) = READY
   \<and> (recoverable t \<longrightarrow> state (execute now Throws t) = READY)
   \<and> (\<not> recoverable t \<longrightarrow> state (execute now Throws t) = TERMINATED)"
  by (simp add: execute_def execute_enter_def execute_leave_def split: handler_result.split)

theorem execute_effect_witness:
  "state (execute 7 Throws (TaskBase ''t'' 10 PREEMPTIVE 0 0 4096 True)) = READY
   \<and> state (execute 7 Throws (TaskBase ''t'' 10 PREEMPTIVE 0 0 4096 False)) = TERMINATED
   \<and> execution_count (statistics (execute 7 Returns (TaskBase ''t'' 10 PREEMPTIVE 0 0 4096 False))) = 1"
  using execute_effect [of 7 Throws "TaskBase ''t'' 10 PREEMPTIVE 0 0 4096 True"]
        execute_effect [of 7 Throws "TaskBase ''t'' 10 PREEMPTIVE 0 0 4096 False"]
        execute_effect [of 7 Returns "TaskBase ''t'' 10 PREEMPTIVE 0 0 4096 False"]
  by (simp add: execute_def execute_enter_def execute_leave_def TaskBase_def
        TaskStatistics_init_def)

text \<open>
  C2.  The constructor bounds the priority from above only: \<open>std::min(priority, 99)\<close>
  keeps a priority of 0, although the comment on that line says that it ensures the
  range 1 to 99.  A task constructed with priority 0 has base and dynamic priority 0.
\<close>

theorem constructor_priority_zero:
  "base_priority (TaskBase ''zero'' 0 PREEMPTIVE 0 0 4096 False) = 0
   \<and> dynamic_priority (TaskBase ''zero'' 0 PREEMPTIVE 0 0 4096 False) = 0"
  by (simp add: TaskBase_def)

text \<open>
  C3.  \<open>updatePriority\<close> converts \<open>base_priority_ + priority_boost\<close> to \<open>int\<close>
  before it takes the minimum with 99.  For base priority 99 and 500000000 recorded
  misses the sum is about 2.5e9, beyond the largest \<open>int\<close>: the conversion is
  undefined, and the cap at 99 that the comment in the source announces is not reached.
\<close>

theorem updatePriority_conversion_overflow:
  "updatePriority ((TaskBase ''E'' 99 PREEMPTIVE 100 100 4096 False)
      \<lparr>statistics := TaskStatistics_init\<lparr>deadline_misses := 500000000\<rparr>\<rparr>) = None"
  by (simp add: updatePriority_def TaskBase_def TaskStatistics_init_def float_defs Let_def)

text \<open>
  Where the conversion is defined the code agrees with the formula on the examples: base
  priority 50 gives 52 after one miss, 55 after two and 99 after twenty; and base
  priority 99 still gives 99 after 433835024 misses, the last count for which the sum
  fits an \<open>int\<close>.
\<close>

lemma updatePriority_examples:
  "map_option dynamic_priority
     (updatePriority ((TaskBase ''E'' 50 PREEMPTIVE 100 100 4096 False)
        \<lparr>statistics := TaskStatistics_init\<lparr>deadline_misses := 2\<rparr>\<rparr>)) = Some 55"
  "map_option dynamic_priority
     (updatePriority ((TaskBase ''E'' 50 PREEMPTIVE 100 100 4096 False)
        \<lparr>statistics := TaskStatistics_init\<lparr>deadline_misses := 20\<rparr>\<rparr>)) = Some 99"
  "map_option dynamic_priority
     (updatePriority ((TaskBase ''E'' 50 PREEMPTIVE 100 100 4096 False)
        \<lparr>statistics := TaskStatistics_init\<lparr>deadline_misses := 1\<rparr>\<rparr>)) = Some 52"
  "map_option dynamic_priority
     (updatePriority ((TaskBase ''E'' 99 PREEMPTIVE 100 100 4096 False)
        \<lparr>statistics := TaskStatistics_init\<lparr>deadline_misses := 433835024\<rparr>\<rparr>)) = Some 99"
  "updatePriority ((TaskBase ''E'' 99 PREEMPTIVE 100 100 4096 False)
        \<lparr>statistics := TaskStatistics_init\<lparr>deadline_misses := 433835025\<rparr>\<rparr>) = None"
  by (simp_all add: updatePriority_def TaskBase_def TaskStatistics_init_def float_defs Let_def)




text \<open>
  C5.  For a recoverable task, \<open>attemptTaskRecovery\<close> fails and changes nothing once the
  scheduler's counter has reached 3; below 3 it succeeds, adds one to the counter, sets
  the task READY and adds it to the ready queue.  No run from a new scheduler takes the
  counter above 3.  When a recoverable task ends TERMINATED four times on a scheduler
  whose counter is 0, with a recovery attempted each time, the first three attempts
  revive it and the fourth leaves it TERMINATED.
\<close>

theorem attemptTaskRecovery_cap:
  "(recoverable (heap s p) \<and> 3 \<le> recovery_attempts s \<longrightarrow> attemptTaskRecovery p s = (False, s))
   \<and> (recoverable (heap s p) \<and> recovery_attempts s < 3 \<longrightarrow>
        fst (attemptTaskRecovery p s)
        \<and> recovery_attempts (snd (attemptTaskRecovery p s)) = recovery_attempts s + 1
        \<and> state (heap (snd (attemptTaskRecovery p s)) p) = READY
        \<and> set (ready_queue (snd (attemptTaskRecovery p s))) = insert p (set (ready_queue s))
        \<and> length (ready_queue (snd (attemptTaskRecovery p s))) = Suc (length (ready_queue s)))
   \<and> (run ops (Scheduler_init mem ts now) = Some s' \<longrightarrow> recovery_attempts s' \<le> 3)
   \<and> (recoverable (heap s p) \<and> recovery_attempts s = 0 \<longrightarrow>
        (let r1 = attemptTaskRecovery p (update_task p terminate s);
             r2 = attemptTaskRecovery p (update_task p terminate (snd r1));
             r3 = attemptTaskRecovery p (update_task p terminate (snd r2));
             r4 = attemptTaskRecovery p (update_task p terminate (snd r3))
         in fst r1 \<and> state (heap (snd r1) p) = READY
            \<and> fst r2 \<and> state (heap (snd r2) p) = READY
            \<and> fst r3 \<and> state (heap (snd r3) p) = READY
            \<and> \<not> fst r4 \<and> state (heap (snd r4) p) = TERMINATED
            \<and> recovery_attempts (snd r4) = 3))"
proof (intro conjI impI)
  assume "recoverable (heap s p) \<and> 3 \<le> recovery_attempts s"
  then show "attemptTaskRecovery p s = (False, s)"
    by (simp add: attemptTaskRecovery_def MAX_RECOVERY_ATTEMPTS_def)
next
  assume a: "recoverable (heap s p) \<and> recovery_attempts s < 3"
  then have b: "\<not> 3 \<le> recovery_attempts s" by (simp add: not_le)
  show "fst (attemptTaskRecovery p s)"
    and "recovery_attempts (snd (attemptTaskRecovery p s)) = recovery_attempts s + 1"
    and "state (heap (snd (attemptTaskRecovery p s)) p) = READY"
    using a b
    by (simp_all add: attemptTaskRecovery_def MAX_RECOVERY_ATTEMPTS_def pq_push_def
        update_task_def setState_def)
  show "set (ready_queue (snd (attemptTaskRecovery p s))) = insert p (set (ready_queue s))"
    and "length (ready_queue (snd (attemptTaskRecovery p s))) = Suc (length (ready_queue s))"
    using a b
    by (simp_all add: attemptTaskRecovery_def MAX_RECOVERY_ATTEMPTS_def pq_push_def
        update_task_def set_pq_insert length_pq_insert)
next
  assume "run ops (Scheduler_init mem ts now) = Some s'"
  then have "recovery_attempts s' \<le> MAX_RECOVERY_ATTEMPTS"
    by (rule run_recovery_attempts) (simp add: Scheduler_init_def)
  then show "recovery_attempts s' \<le> 3" by (simp add: MAX_RECOVERY_ATTEMPTS_def)
next
  assume "recoverable (heap s p) \<and> recovery_attempts s = 0"
  then show "let r1 = attemptTaskRecovery p (update_task p terminate s);
             r2 = attemptTaskRecovery p (update_task p terminate (snd r1));
             r3 = attemptTaskRecovery p (update_task p terminate (snd r2));
             r4 = attemptTaskRecovery p (update_task p terminate (snd r3))
         in fst r1 \<and> state (heap (snd r1) p) = READY
            \<and> fst r2 \<and> state (heap (snd r2) p) = READY
            \<and> fst r3 \<and> state (heap (snd r3) p) = READY
            \<and> \<not> fst r4 \<and> state (heap (snd r4) p) = TERMINATED
            \<and> recovery_attempts (snd r4) = 3"
    by (simp add: Let_def attemptTaskRecovery_def MAX_RECOVERY_ATTEMPTS_def pq_push_def
        update_task_def setState_def terminate_def word_le_nat_alt)
qed

theorem attemptTaskRecovery_cap_witness:
  "fst (attemptTaskRecovery 0 scheduler0)
   \<and> recovery_attempts (snd (attemptTaskRecovery 0 scheduler0)) = 1
   \<and> state (heap (snd (attemptTaskRecovery 0 scheduler0)) 0) = READY
   \<and> attemptTaskRecovery 0 (scheduler0\<lparr>recovery_attempts := 3\<rparr>)
       = (False, scheduler0\<lparr>recovery_attempts := 3\<rparr>)
   \<and> recovery_attempts (snd (attemptTaskRecovery 0 scheduler0)) \<le> 3"
proof -
  have r: "recoverable (heap scheduler0 0)"
    "recoverable (heap (scheduler0\<lparr>recovery_attempts := 3\<rparr>) 0)"
    by (simp_all add: scheduler0_def Scheduler_init_def recoverable_task_def TaskBase_def)
  have c: "recovery_attempts scheduler0 = 0"
    by (simp add: scheduler0_def Scheduler_init_def)
  have go: "run [AttemptTaskRecovery 0] (Scheduler_init (\<lambda>_. recoverable_task) 50 0)
              = Some (snd (attemptTaskRecovery 0 scheduler0))"
    by (simp add: scheduler0_def)
  show ?thesis
    using attemptTaskRecovery_cap
            [of scheduler0 0 "[AttemptTaskRecovery 0]" "\<lambda>_. recoverable_task" 50 0
                "snd (attemptTaskRecovery 0 scheduler0)"]
          attemptTaskRecovery_cap [of "scheduler0\<lparr>recovery_attempts := 3\<rparr>" 0]
          r c go
    by simp
qed

text \<open>
  C6.  A task whose deadline is 0 is passed over by both mechanisms that record misses:
  \<open>updateDeadlineCounter\<close> and the loop body of \<open>checkDeadlines\<close> return it as it
  is, so neither a pass of \<open>checkDeadlines\<close> nor a pass of the deadline monitor changes
  its \<open>deadline_misses\<close>.  Over any run of operations in which nobody calls
  \<open>recordDeadlineMiss\<close> on a handle directly, the deadline stays 0 and the number of
  misses of the task never grows.
\<close>

theorem zero_deadline_no_miss:
  "(deadline t = 0 \<longrightarrow>
      updateDeadlineCounter elapsed t = Some t \<and> checkDeadlines_task now t = Some t)
   \<and> (deadline (heap s p) = 0 \<and> checkDeadlines now s = Some s' \<longrightarrow>
        deadline_misses (statistics (heap s' p)) = deadline_misses (statistics (heap s p)))
   \<and> (deadline (heap s p) = 0 \<and> deadlineMonitorLoop_body elapsed s = Some s' \<longrightarrow>
        deadline_misses (statistics (heap s' p)) = deadline_misses (statistics (heap s p)))
   \<and> (deadline (heap s p) = 0 \<and> run ops s = Some s'
        \<and> (\<forall>q. OnTask q RecordDeadlineMiss \<notin> set ops) \<longrightarrow>
        deadline (heap s' p) = 0
        \<and> unat (deadline_misses (statistics (heap s' p)))
            \<le> unat (deadline_misses (statistics (heap s p))))"
proof (intro conjI impI)
  assume "deadline t = 0"
  then show "updateDeadlineCounter elapsed t = Some t" "checkDeadlines_task now t = Some t"
    by (rule deadline_zero_fixed)+
next
  assume "deadline (heap s p) = 0 \<and> checkDeadlines now s = Some s'"
  then have "heap s' p = heap s p" by (blast intro: checkDeadlines_zero_deadline)
  then show "deadline_misses (statistics (heap s' p)) = deadline_misses (statistics (heap s p))"
    by simp
next
  assume "deadline (heap s p) = 0 \<and> deadlineMonitorLoop_body elapsed s = Some s'"
  then have "heap s' p = heap s p" by (blast intro: deadlineMonitorLoop_body_zero_deadline)
  then show "deadline_misses (statistics (heap s' p)) = deadline_misses (statistics (heap s p))"
    by simp
next
  assume a: "deadline (heap s p) = 0 \<and> run ops s = Some s'
        \<and> (\<forall>q. OnTask q RecordDeadlineMiss \<notin> set ops)"
  then have "no_new_miss (heap s p) (heap s' p)"
    by (intro run_no_new_miss) auto
  with a show "deadline (heap s' p) = 0"
    and "unat (deadline_misses (statistics (heap s' p)))
            \<le> unat (deadline_misses (statistics (heap s p)))"
    by (simp_all add: no_new_miss_def)
qed

theorem zero_deadline_no_miss_witness:
  "deadline (heap (addTask 0 scheduler0) 0) = 0
   \<and> updateDeadlineCounter 500 recoverable_task = Some recoverable_task
   \<and> checkDeadlines 7 (addTask 0 scheduler0) = Some (addTask 0 scheduler0)
   \<and> deadlineMonitorLoop_body 500 (addTask 0 scheduler0) = Some (addTask 0 scheduler0)
   \<and> run [Start 0, DeadlineMonitorLoop 500] (addTask 0 scheduler0)
       = Some (start 0 (addTask 0 scheduler0))
   \<and> unat (deadline_misses (statistics (heap (start 0 (addTask 0 scheduler0)) 0)))
       \<le> unat (deadline_misses (statistics (heap (addTask 0 scheduler0) 0)))"
proof -
  have d: "deadline recoverable_task = 0"
    by (simp add: recoverable_task_def TaskBase_def)
  have h: "heap (addTask 0 scheduler0) = (\<lambda>_. recoverable_task)"
    "all_tasks (addTask 0 scheduler0) = [0]"
    by (simp_all add: heap_addTask all_tasks_addTask scheduler0_def Scheduler_init_def)
  have same: "s\<lparr>heap := (heap s)(0 := heap s 0)\<rparr> = s" for s :: Scheduler
    by simp
  have c: "checkDeadlines 7 s = Some s"
    if "heap s = (\<lambda>_. recoverable_task)" "all_tasks s = [0]" for s
    using that same [of s] by (simp add: checkDeadlines_def deadline_zero_fixed d)
  have m: "deadlineMonitorLoop_body 500 s = Some s"
    if "heap s = (\<lambda>_. recoverable_task)" "all_tasks s = [0]" for s
    using that same [of s]
    by (simp add: deadlineMonitorLoop_body_def monitor_task_def deadline_zero_fixed d
        isDeadlineApproaching_def)
  have r: "run [Start 0, DeadlineMonitorLoop 500] (addTask 0 scheduler0)
             = Some (start 0 (addTask 0 scheduler0))"
    by (simp add: m h start_frame)
  show ?thesis
    using zero_deadline_no_miss
            [of recoverable_task 500 7 "addTask 0 scheduler0" 0 "addTask 0 scheduler0" "[]"]
          zero_deadline_no_miss
            [of recoverable_task 500 7 "addTask 0 scheduler0" 0 "start 0 (addTask 0 scheduler0)"
                "[Start 0, DeadlineMonitorLoop 500]"]
          d h c [OF h] m [OF h] r
    by simp
qed

text \<open>
  C7.  \<open>createTask\<close> with a name that is registered returns no handle and leaves the
  kernel, and with it the registry and the scheduler's task list, as it was.  With a new
  name it returns the handle of the new task, registers it under the name and appends it
  to the scheduler's list; a second \<open>createTask\<close> with the same name then fails and
  changes nothing, so that the name is registered once, for the first task.
\<close>

theorem createTask_registry:
  "(tasks k nm \<noteq> None \<longrightarrow> createTask fresh nm priority pol per dl rec k = (None, k))
   \<and> (tasks k nm = None \<longrightarrow>
        fst (createTask fresh nm priority pol per dl rec k) = Some fresh
        \<and> tasks (snd (createTask fresh nm priority pol per dl rec k)) = (tasks k)(nm \<mapsto> fresh)
        \<and> all_tasks (scheduler (snd (createTask fresh nm priority pol per dl rec k)))
            = all_tasks (scheduler k) @ [fresh]
        \<and> heap (scheduler (snd (createTask fresh nm priority pol per dl rec k))) fresh
            = TaskBase nm priority pol per dl 4096 rec
        \<and> createTask fresh' nm priority' pol' per' dl' rec'
             (snd (createTask fresh nm priority pol per dl rec k))
            = (None, snd (createTask fresh nm priority pol per dl rec k)))"
  by (simp add: createTask_def Let_def addTask_def pq_push_def)

theorem createTask_registry_witness:
  "fst (createTask 0 ''X'' 128 PREEMPTIVE 0 0 False kernel0) = Some 0
   \<and> fst (createTask 1 ''X'' 5 COOPERATIVE 0 0 True
            (snd (createTask 0 ''X'' 128 PREEMPTIVE 0 0 False kernel0))) = None
   \<and> tasks (snd (createTask 1 ''X'' 5 COOPERATIVE 0 0 True
            (snd (createTask 0 ''X'' 128 PREEMPTIVE 0 0 False kernel0)))) ''X'' = Some 0
   \<and> all_tasks (scheduler (snd (createTask 1 ''X'' 5 COOPERATIVE 0 0 True
            (snd (createTask 0 ''X'' 128 PREEMPTIVE 0 0 False kernel0))))) = [0]"
  using createTask_registry [of kernel0 "''X''" 0 128 PREEMPTIVE 0 0 False 1 5 COOPERATIVE 0 0 True]
        createTask_registry [of "snd (createTask 0 ''X'' 128 PREEMPTIVE 0 0 False kernel0)" "''X''"
           1 5 COOPERATIVE 0 0 True]
  by (simp add: kernel0_def Scheduler_init_def)

text \<open>
  C8.  \<open>suspend\<close> followed at once by \<open>resume\<close> leaves the task READY exactly when it
  was not TERMINATED before; a TERMINATED task is left as it is by both calls.
\<close>

theorem suspend_resume_ready:
  "(state (resume (suspend t)) = READY \<longleftrightarrow> state t \<noteq> TERMINATED)
   \<and> (state t = TERMINATED \<longrightarrow>
        suspend t = t \<and> resume (suspend t) = suspend t \<and> state (resume (suspend t)) = TERMINATED)"
  by (simp add: suspend_def resume_def)

theorem suspend_resume_ready_witness:
  "state (resume (suspend (terminate (TaskBase ''t'' 10 PREEMPTIVE 0 0 4096 False)))) = TERMINATED
   \<and> state (resume (suspend (setState BLOCKED (TaskBase ''t'' 10 PREEMPTIVE 0 0 4096 False)))) = READY"
  using suspend_resume_ready [of "terminate (TaskBase ''t'' 10 PREEMPTIVE 0 0 4096 False)"]
        suspend_resume_ready [of "setState BLOCKED (TaskBase ''t'' 10 PREEMPTIVE 0 0 4096 False)"]
  by (simp add: suspend_def resume_def terminate_def setState_def TaskBase_def)




text \<open>
  C10.  A task constructed with deadline 0 and period 0 stores the deadline 0, and for
  a task whose stored deadline is 0 \<open>updateDeadlineCounter\<close> changes nothing at all,
  whatever the elapsed time: the counter does not advance, no miss is recorded, the
  priority stays.
\<close>

theorem updateDeadlineCounter_zero_deadline:
  "deadline (TaskBase nm priority pol 0 0 stack rec) = 0
   \<and> updateDeadlineCounter elapsed (TaskBase nm priority pol 0 0 stack rec)
       = Some (TaskBase nm priority pol 0 0 stack rec)
   \<and> (deadline t = 0 \<longrightarrow> updateDeadlineCounter elapsed t = Some t)"
  by (simp add: updateDeadlineCounter_def TaskBase_def)

theorem updateDeadlineCounter_zero_deadline_witness:
  "updateDeadlineCounter 500 (execute 3 Returns (TaskBase ''idle'' 5 COOPERATIVE 0 0 4096 False))
     = Some (execute 3 Returns (TaskBase ''idle'' 5 COOPERATIVE 0 0 4096 False))"
  using updateDeadlineCounter_zero_deadline
          [of "''idle''" 5 COOPERATIVE 4096 False 500
              "execute 3 Returns (TaskBase ''idle'' 5 COOPERATIVE 0 0 4096 False)"]
  by (simp add: TaskBase_def execute_def execute_enter_def execute_leave_def)

end
